theory Spec2Isabelle
  imports Complex_Main
begin

section \<open>JavaScript values and string helpers\<close>

text \<open>
  Strings are lists of 8-bit characters. The program only inspects ASCII characters
  (hex digits, decimal digits, letters); \<open>toLowerCase\<close> is modelled on ASCII letters and
  leaves every other character alone.
\<close>

definition upperLetters :: string where
  "upperLetters = ''ABCDEFGHIJKLMNOPQRSTUVWXYZ''"

definition lowerLetters :: string where
  "lowerLetters = ''abcdefghijklmnopqrstuvwxyz''"

definition toLowerChar :: "char \<Rightarrow> char" where
  "toLowerChar c = (case map_of (zip upperLetters lowerLetters) c of Some d \<Rightarrow> d | None \<Rightarrow> c)"

definition toLowerCase :: "string \<Rightarrow> string" where
  "toLowerCase s = map toLowerChar s"

text \<open>Two characters that are the same letter in possibly different case.\<close>

definition sameLetter :: "char \<Rightarrow> char \<Rightarrow> bool" where
  "sameLetter c d =
     (c = d \<or> (c, d) \<in> set (zip upperLetters lowerLetters)
            \<or> (d, c) \<in> set (zip upperLetters lowerLetters))"

definition differOnlyInCase :: "string \<Rightarrow> string \<Rightarrow> bool" where
  "differOnlyInCase a b = list_all2 sameLetter a b"

definition decimalDigits :: string where
  "decimalDigits = ''0123456789''"

definition isDigit :: "char \<Rightarrow> bool" where
  "isDigit c = (c \<in> set decimalDigits)"

definition digitVal :: "char \<Rightarrow> nat" where
  "digitVal c = (case map_of (zip decimalDigits [0, 1, 2, 3, 4, 5, 6, 7, 8, 9]) c of
                   Some n \<Rightarrow> n | None \<Rightarrow> 0)"

definition digitChar :: "nat \<Rightarrow> char" where
  "digitChar n = decimalDigits ! (n mod 10)"

definition digitsVal :: "string \<Rightarrow> nat" where
  "digitsVal ds = foldl (\<lambda>a c. 10 * a + digitVal c) 0 ds"

text \<open>The decimal numeral of a natural number, most significant digit first.\<close>

function showNat :: "nat \<Rightarrow> string" where
  "showNat n = (if n < 10 then [digitChar n] else showNat (n div 10) @ [digitChar n])"
  by pat_completeness auto
termination
  by (relation "measure id") auto

declare showNat.simps [simp del]

definition showInt :: "int \<Rightarrow> string" where
  "showInt i = (if i < 0 then CHR ''-'' # showNat (nat (- i)) else showNat (nat i))"

definition isSpace :: "char \<Rightarrow> bool" where
  "isSpace c = (c \<in> set [CHR '' '', CHR 0x09, CHR 0x0A, CHR 0x0B, CHR 0x0C, CHR 0x0D])"

subsection \<open>Numbers\<close>

text \<open>
  A JavaScript number is an IEEE 754 double: \<open>NaN\<close>, an infinity, or a finite value, given
  here by the rational number it stands for (the sign of zero is not told apart).
\<close>

datatype jsnum = NaN | NegInfinity | Finite rat | Infinity

text \<open>The number of binary digits of a natural number.\<close>

fun bitLength :: "nat \<Rightarrow> nat" where
  "bitLength n = (if n = 0 then 0 else Suc (bitLength (n div 2)))"

declare bitLength.simps [simp del]

text \<open>For a positive \<open>q\<close>, the exponent \<open>k\<close> with \<open>2^k \<le> q < 2^(k+1)\<close>.\<close>

definition floorLog2 :: "rat \<Rightarrow> int" where
  "floorLog2 q =
     (if 1 \<le> q then int (bitLength (nat \<lfloor>q\<rfloor>)) - 1
      else - int (bitLength (nat (\<lceil>1 / q\<rceil> - 1))))"

text \<open>Rounding to the nearest integer, a tie going to the even one.\<close>

definition roundHalfEven :: "rat \<Rightarrow> int" where
  "roundHalfEven x =
     (let f = \<lfloor>x\<rfloor>; r = x - of_int f
      in if r < 1 / 2 then f else if 1 / 2 < r then f + 1 else if even f then f else f + 1)"

text \<open>
  The double nearest to a rational number, ties to even: the significand has 53 binary
  digits, the exponent of the last place is at least -1074 (below that lie the subnormal
  numbers, with fewer digits), and a result of \<open>2^1024\<close> or more in magnitude is an
  infinity. This is how a decimal literal is read and how the exact result of an
  arithmetic operation is rounded.
\<close>

definition toDouble :: "rat \<Rightarrow> jsnum" where
  "toDouble q =
     (if q = 0 then Finite 0
      else
        (let e = max (floorLog2 \<bar>q\<bar> - 52) (- 1074);
             v = of_int (roundHalfEven (q / 2 powi e)) * 2 powi e
         in if 2 ^ 1024 \<le> v then Infinity
            else if v \<le> - (2 ^ 1024) then NegInfinity
            else Finite v))"

text \<open>An integer that is a JavaScript number: the conversion does not round it.\<close>

definition isNumber :: "int \<Rightarrow> bool" where
  "isNumber n = (toDouble (of_int n) = Finite (of_int n))"

fun negNumber :: "jsnum \<Rightarrow> jsnum" where
  "negNumber NaN = NaN"
| "negNumber NegInfinity = Infinity"
| "negNumber Infinity = NegInfinity"
| "negNumber (Finite a) = Finite (- a)"

text \<open>\<open>x + y\<close>: the exact sum, rounded.\<close>

fun addNumber :: "jsnum \<Rightarrow> jsnum \<Rightarrow> jsnum" where
  "addNumber (Finite a) (Finite b) = toDouble (a + b)"
| "addNumber NaN y = NaN"
| "addNumber x NaN = NaN"
| "addNumber Infinity NegInfinity = NaN"
| "addNumber NegInfinity Infinity = NaN"
| "addNumber Infinity y = Infinity"
| "addNumber x Infinity = Infinity"
| "addNumber NegInfinity y = NegInfinity"
| "addNumber x NegInfinity = NegInfinity"

definition subNumber :: "jsnum \<Rightarrow> jsnum \<Rightarrow> jsnum" where
  "subNumber x y = addNumber x (negNumber y)"

text \<open>\<open>a * b\<close> for two finite numbers: the exact product, rounded.\<close>

definition mulNumber :: "rat \<Rightarrow> rat \<Rightarrow> jsnum" where
  "mulNumber a b = toDouble (a * b)"

text \<open>\<open>x < y\<close>: every comparison with \<open>NaN\<close> is false.\<close>

fun ltNumber :: "jsnum \<Rightarrow> jsnum \<Rightarrow> bool" where
  "ltNumber (Finite a) (Finite b) = (a < b)"
| "ltNumber NaN y = False"
| "ltNumber x NaN = False"
| "ltNumber Infinity y = False"
| "ltNumber x NegInfinity = False"
| "ltNumber x Infinity = True"
| "ltNumber NegInfinity y = True"

text \<open>\<open>count >= limit\<close> for an integer limit.\<close>

definition geNumber :: "jsnum \<Rightarrow> int \<Rightarrow> bool" where
  "geNumber count limit =
     (case count of Finite c \<Rightarrow> of_int limit \<le> c | Infinity \<Rightarrow> True | _ \<Rightarrow> False)"

text \<open>
  \<open>parseFloat\<close> of a decimal numeral, given by the value \<open>d\<close> the numeral denotes: the
  double nearest to \<open>d\<close>.
\<close>

definition parseFloat :: "rat \<Rightarrow> jsnum" where
  "parseFloat d = toDouble d"

text \<open>
  The integer \<open>parseInt(s, 10)\<close> reads: leading white space is skipped, one sign is read,
  then the longest run of decimal digits; \<open>None\<close> when there is no digit.
\<close>

definition parseIntValue :: "string \<Rightarrow> int option" where
  "parseIntValue s =
     (let t = dropWhile isSpace s;
          neg = (case t of [] \<Rightarrow> False | c # _ \<Rightarrow> c = CHR ''-'');
          u = (case t of [] \<Rightarrow> [] | c # r \<Rightarrow> if c = CHR ''-'' \<or> c = CHR ''+'' then r else t);
          ds = takeWhile isDigit u
      in if ds = [] then None
         else Some (if neg then - int (digitsVal ds) else int (digitsVal ds)))"

text \<open>\<open>parseInt(s, 10)\<close>: that integer as a number, \<open>NaN\<close> when there is no digit.\<close>

definition parseInt :: "string \<Rightarrow> jsnum" where
  "parseInt s = (case parseIntValue s of None \<Rightarrow> NaN | Some v \<Rightarrow> toDouble (of_int v))"


section \<open>Data model\<close>

datatype error =
    InvalidAddress
  | CaptchaFailed
  | IpRateLimit int
  | AddressRateLimit int
  | BalanceTooLow
  | BalanceUnavailable
  | InvalidRecipient
  | RpcError
  | RangeError
  | InvalidArgument
  | ReceiptNull
  | TxFailedOnChain
  | RedisError
  | TypeError
  | SyntaxError

text \<open>
  The aggregate statistics object kept under the key \<open>stats\<close>. The three counters are
  numbers of a JSON document: finite doubles, or null, which is how \<open>JSON.stringify\<close>
  writes a number that is not finite; a value that is not finite stands for null here.
  \<open>totalDistributed\<close> is a string in the document, the \<open>toString\<close> of a number; it is
  given by that number, which is what \<open>parseFloat\<close> reads back from the string.
\<close>

record stats =
  totalRequests :: jsnum
  successfulRequests :: jsnum
  failedRequests :: jsnum
  totalDistributed :: jsnum
  lastRequest :: "int option"

text \<open>The per-transaction object kept for seven days under \<open>request:\<close> and the hash.\<close>

record request_record =
  recAddress :: string
  recTxHash :: string
  recAmount :: rat
  recTimestamp :: int

datatype json_doc = StatsDoc stats | RequestDoc request_record

text \<open>
  A value held by the counter store is a string. \<open>Json d\<close> stands for the string
  \<open>JSON.stringify(d)\<close>; \<open>Text s\<close> is any other string, given by its characters.
\<close>

datatype redis_value = Text string | Json json_doc

text \<open>Values a response body of the captcha provider can hold in a field.\<close>

datatype js = JUndefined | JNull | JBool bool | JString string | JStrings "string list"

datatype body = BodyNull | BodyUndefined | BodyText string | BodyObject "(string \<times> js) list"

text \<open>What \<open>axios.post\<close> does: it throws, or it resolves with a response whose data is a body.\<close>

datatype post_outcome = PostThrows | PostReturns body

datatype receipt_outcome = WaitThrows | NoReceipt | Receipt int nat

text \<open>
  The chain endpoint as the service sees it during one request: what each remote call
  answers. \<open>None\<close> is a call that throws. Balances are in wei. Two functions of the ethers
  library are part of it: \<open>ethersGetAddress\<close> is the checksum normalisation, \<open>None\<close> where
  \<open>ethers.isAddress\<close> is false; \<open>parseEther\<close> takes a number and answers what
  \<open>parseEther(n.toString())\<close> returns, the amount in wei, \<open>None\<close> where the library
  refuses the string (more than 18 decimals, exponent notation).
\<close>

record chain_env =
  walletAddress :: string
  ethersGetAddress :: "string \<Rightarrow> string option"
  parseEther :: "rat \<Rightarrow> nat option"
  primaryBalance :: "nat option"
  fallbackBalance :: "nat option option"
  pendingNonce :: "nat option"
  feeGasPrice :: "nat option option"
  submittedHash :: "string option"
  receipt :: receipt_outcome

text \<open>
  The log of calls on the three collaborating services and of the two outbound
  operations the claims speak of (the HTTP post to the captcha provider and the
  submission of a transaction), in the order they happen.
\<close>

datatype event =
    Verify "string option" "string option"
  | HttpPost "(string \<times> string) list"
  | CheckRateLimit string int int
  | GetBalance
  | SendTokens string string
  | SendTransaction string nat nat int
  | UpdateStats string string

text \<open>
  \<open>now\<close> is the clock in milliseconds (\<open>Date.now()\<close>, and the store's clock). \<open>redis\<close>
  maps a key to its value and its expiry time, if it has one. \<open>faults\<close> scripts the next
  commands sent to the store: the head says whether the next command throws; when the
  script is used up, commands succeed.
\<close>

record world =
  now :: int
  redis :: "string \<Rightarrow> (redis_value \<times> int option) option"
  faults :: "bool list"
  provider :: "(string \<times> string) list \<Rightarrow> post_outcome"
  node :: chain_env
  trace :: "event list"

text \<open>
  The configuration. \<open>faucetAmount\<close> and \<open>gasPriceMultiplier\<close> are read with
  \<open>parseFloat\<close>: they are finite doubles, given by their values. The limits and windows
  are read with \<open>parseInt\<close>: they are integers.
\<close>

record config =
  captchaEnabled :: bool
  captchaSecret :: string
  faucetAmount :: rat
  gasLimit :: nat
  gasPriceMultiplier :: rat
  chainId :: nat
  ipWindowMs :: int
  ipMaxRequests :: int
  addressWindowMs :: int
  addressMaxRequests :: int

text \<open>
  The defaults of \<open>config/index.ts\<close> (no environment variable set). The multiplier is
  the double nearest to 1.2.
\<close>

definition defaultConfig :: config where
  "defaultConfig =
     \<lparr>captchaEnabled = False, captchaSecret = [], faucetAmount = 10, gasLimit = 21000,
      gasPriceMultiplier = 5404319552844595 / 4503599627370496, chainId = 6174,
      ipWindowMs = 3600000, ipMaxRequests = 5,
      addressWindowMs = 86400000, addressMaxRequests = 1\<rparr>"

definition emit :: "event \<Rightarrow> world \<Rightarrow> world" where
  "emit e w = w\<lparr>trace := trace w @ [e]\<rparr>"

text \<open>Time passing between two calls.\<close>

definition tick :: "int \<Rightarrow> world \<Rightarrow> world" where
  "tick d w = w\<lparr>now := now w + d\<rparr>"

section \<open>The counter store\<close>

text \<open>
  Every command sent to the store either throws (the connection is down, the command is
  refused) or answers. The next scripted outcome is taken off the script.
\<close>

definition nextFault :: "world \<Rightarrow> bool \<times> world" where
  "nextFault w = (case faults w of [] \<Rightarrow> (False, w) | f # fs \<Rightarrow> (f, w\<lparr>faults := fs\<rparr>))"

text \<open>
  An entry is there while it has no expiry time or the clock \<open>t\<close> has not passed it: the
  store takes a key for expired once the clock is greater than its expiry time.
\<close>

definition live ::
  "int \<Rightarrow> (redis_value \<times> int option) option \<Rightarrow> (redis_value \<times> int option) option" where
  "live t x =
     (case x of
        None \<Rightarrow> None
      | Some (v, None) \<Rightarrow> Some (v, None)
      | Some (v, Some e) \<Rightarrow> if t \<le> e then Some (v, Some e) else None)"

definition lookup :: "world \<Rightarrow> string \<Rightarrow> (redis_value \<times> int option) option" where
  "lookup w key = live (now w) (redis w key)"

definition clientGet :: "string \<Rightarrow> world \<Rightarrow> (error + redis_value option) \<times> world" where
  "clientGet key w0 =
     (let (f, w) = nextFault w0
      in if f then (Inl RedisError, w) else (Inr (map_option fst (lookup w key)), w))"

definition clientSet :: "string \<Rightarrow> redis_value \<Rightarrow> world \<Rightarrow> (error + unit) \<times> world" where
  "clientSet key v w0 =
     (let (f, w) = nextFault w0
      in if f then (Inl RedisError, w)
         else (Inr (), w\<lparr>redis := (redis w)(key \<mapsto> (v, None))\<rparr>))"

text \<open>\<open>SETEX\<close> refuses an expiry that is not positive.\<close>

definition clientSetex :: "string \<Rightarrow> int \<Rightarrow> redis_value \<Rightarrow> world \<Rightarrow> (error + unit) \<times> world" where
  "clientSetex key seconds v w0 =
     (let (f, w) = nextFault w0
      in if f \<or> seconds \<le> 0 then (Inl RedisError, w)
         else (Inr (), w\<lparr>redis := (redis w)(key \<mapsto> (v, Some (now w + seconds * 1000)))\<rparr>))"

text \<open>
  The integers \<open>INCR\<close> accepts: an optional minus sign, then decimal digits with no
  leading zero (or the single digit zero), within 64 bits.
\<close>

definition string2ll :: "string \<Rightarrow> int option" where
  "string2ll s =
     (let neg = (case s of [] \<Rightarrow> False | c # _ \<Rightarrow> c = CHR ''-'');
          ds = (if neg then tl s else s)
      in if ds = [] \<or> \<not> list_all isDigit ds then None
         else if hd ds = CHR ''0'' then (if s = ''0'' then Some 0 else None)
         else let v = (if neg then - int (digitsVal ds) else int (digitsVal ds))
              in if - (2 ^ 63) \<le> v \<and> v \<le> 2 ^ 63 - 1 then Some v else None)"

definition clientIncr :: "string \<Rightarrow> world \<Rightarrow> (error + int) \<times> world" where
  "clientIncr key w0 =
     (let (f, w) = nextFault w0
      in if f then (Inl RedisError, w)
         else (case lookup w key of
                 None \<Rightarrow> (Inr 1, w\<lparr>redis := (redis w)(key \<mapsto> (Text ''1'', None))\<rparr>)
               | Some (Json d, e) \<Rightarrow> (Inl RedisError, w)
               | Some (Text s, e) \<Rightarrow>
                   (case string2ll s of
                      None \<Rightarrow> (Inl RedisError, w)
                    | Some v \<Rightarrow>
                        if v = 2 ^ 63 - 1 then (Inl RedisError, w)
                        else (Inr (v + 1),
                              w\<lparr>redis := (redis w)(key \<mapsto> (Text (showInt (v + 1)), e))\<rparr>))))"

text \<open>\<open>TTL\<close> in seconds, rounded; -2 for a key that is not there, -1 for one without expiry.\<close>

definition clientTtl :: "string \<Rightarrow> world \<Rightarrow> (error + int) \<times> world" where
  "clientTtl key w0 =
     (let (f, w) = nextFault w0
      in if f then (Inl RedisError, w)
         else (case lookup w key of
                 None \<Rightarrow> (Inr (- 2), w)
               | Some (v, None) \<Rightarrow> (Inr (- 1), w)
               | Some (v, Some t) \<Rightarrow> (Inr ((t - now w + 500) div 1000), w)))"

subsection \<open>RedisService\<close>

text \<open>\<open>get\<close>, \<open>set\<close> and \<open>setex\<close> catch the client's error and answer null or false.\<close>

definition redisGet :: "string \<Rightarrow> world \<Rightarrow> redis_value option \<times> world" where
  "redisGet key w =
     (case clientGet key w of (Inl e, w1) \<Rightarrow> (None, w1) | (Inr v, w1) \<Rightarrow> (v, w1))"

definition redisSet :: "string \<Rightarrow> redis_value \<Rightarrow> world \<Rightarrow> bool \<times> world" where
  "redisSet key v w =
     (case clientSet key v w of (Inl e, w1) \<Rightarrow> (False, w1) | (Inr u, w1) \<Rightarrow> (True, w1))"

definition redisSetex :: "string \<Rightarrow> int \<Rightarrow> redis_value \<Rightarrow> world \<Rightarrow> bool \<times> world" where
  "redisSetex key seconds v w =
     (case clientSetex key seconds v w of (Inl e, w1) \<Rightarrow> (False, w1) | (Inr u, w1) \<Rightarrow> (True, w1))"

record rate_limit =
  allowed :: bool
  remaining :: jsnum
  resetAt :: int

text \<open>\<open>!current\<close>: null and the empty string are falsy.\<close>

definition falsy :: "redis_value option \<Rightarrow> bool" where
  "falsy current = (current = None \<or> current = Some (Text []))"

text \<open>\<open>parseInt(current, 10)\<close>; the JSON text of an object starts with a brace.\<close>

definition parseCount :: "redis_value option \<Rightarrow> jsnum" where
  "parseCount current = (case current of Some (Text s) \<Rightarrow> parseInt s | _ \<Rightarrow> NaN)"

definition failOpen :: "int \<Rightarrow> int \<Rightarrow> world \<Rightarrow> rate_limit" where
  "failOpen limit windowMs w =
     \<lparr>allowed = True, remaining = Finite (of_int limit), resetAt = now w + windowMs\<rparr>"

text \<open>
  \<open>checkRateLimit(key, limit, windowMs)\<close>. The limit and the window are integers, as the
  configuration reads them with \<open>parseInt\<close>. The function awaits the store twice: once
  for the read of the counter and once for the command that follows it. Between the two,
  other calls can run. \<open>checkRateLimitRead\<close> is the call up to the answer of the read,
  \<open>checkRateLimitFinish\<close> is the rest of it, given that answer. Every branch that returns
  an error of the store is the \<open>catch\<close> block: the call fails open.
\<close>

definition checkRateLimitRead ::
  "string \<Rightarrow> int \<Rightarrow> int \<Rightarrow> world \<Rightarrow> (error + redis_value option) \<times> world" where
  "checkRateLimitRead key limit windowMs w0 =
     clientGet key (emit (CheckRateLimit key limit windowMs) w0)"

definition checkRateLimitFinish ::
  "string \<Rightarrow> int \<Rightarrow> int \<Rightarrow> error + redis_value option \<Rightarrow> world \<Rightarrow> rate_limit \<times> world" where
  "checkRateLimitFinish key limit windowMs got w1 =
     (let windowSeconds = windowMs div 1000
      in case got of
           Inl e \<Rightarrow> (failOpen limit windowMs w1, w1)
         | Inr current \<Rightarrow>
             if falsy current then
               (case clientSetex key windowSeconds (Text ''1'') w1 of
                  (Inl e, w2) \<Rightarrow> (failOpen limit windowMs w2, w2)
                | (Inr u, w2) \<Rightarrow>
                    (\<lparr>allowed = True, remaining = toDouble (of_int limit - 1),
                      resetAt = now w2 + windowMs\<rparr>, w2))
             else
               (let count = parseCount current
                in if geNumber count limit then
                     (case clientTtl key w1 of
                        (Inl e, w2) \<Rightarrow> (failOpen limit windowMs w2, w2)
                      | (Inr ttl, w2) \<Rightarrow>
                          (\<lparr>allowed = False, remaining = Finite 0,
                            resetAt = now w2 + ttl * 1000\<rparr>, w2))
                   else
                     (case clientIncr key w1 of
                        (Inl e, w2) \<Rightarrow> (failOpen limit windowMs w2, w2)
                      | (Inr n, w2) \<Rightarrow>
                          (\<lparr>allowed = True,
                            remaining = subNumber (subNumber (Finite (of_int limit)) count)
                                          (Finite 1),
                            resetAt = now w2 + windowMs\<rparr>, w2))))"

definition checkRateLimit :: "string \<Rightarrow> int \<Rightarrow> int \<Rightarrow> world \<Rightarrow> rate_limit \<times> world" where
  "checkRateLimit key limit windowMs w0 =
     (let (got, w1) = checkRateLimitRead key limit windowMs w0
      in checkRateLimitFinish key limit windowMs got w1)"

section \<open>CaptchaService\<close>

record captcha_result =
  success :: js
  challenge_ts :: js
  hostname :: js
  errorCodes :: js
  action :: js
  cdata :: js

text \<open>JavaScript truthiness, as \<open>!captchaResult.success\<close> reads it.\<close>

definition truthy :: "js \<Rightarrow> bool" where
  "truthy v =
     (case v of
        JUndefined \<Rightarrow> False
      | JNull \<Rightarrow> False
      | JBool b \<Rightarrow> b
      | JString s \<Rightarrow> s \<noteq> []
      | JStrings xs \<Rightarrow> True)"

text \<open>
  Reading a property of the response data. On null and undefined the read throws a
  TypeError; a string has none of the properties read here; an object answers its field
  or undefined.
\<close>

definition jsField :: "body \<Rightarrow> string \<Rightarrow> error + js" where
  "jsField b name =
     (case b of
        BodyNull \<Rightarrow> Inl TypeError
      | BodyUndefined \<Rightarrow> Inl TypeError
      | BodyText s \<Rightarrow> Inr JUndefined
      | BodyObject fs \<Rightarrow> Inr (case map_of fs name of None \<Rightarrow> JUndefined | Some v \<Rightarrow> v))"

definition onlySuccess :: captcha_result where
  "onlySuccess =
     \<lparr>success = JBool True, challenge_ts = JUndefined, hostname = JUndefined,
      errorCodes = JUndefined, action = JUndefined, cdata = JUndefined\<rparr>"

definition failedWith :: "string \<Rightarrow> captcha_result" where
  "failedWith code =
     \<lparr>success = JBool False, challenge_ts = JUndefined, hostname = JUndefined,
      errorCodes = JStrings [code], action = JUndefined, cdata = JUndefined\<rparr>"

definition formData :: "config \<Rightarrow> string \<Rightarrow> string option \<Rightarrow> (string \<times> string) list" where
  "formData cfg token ip =
     [(''secret'', captchaSecret cfg), (''response'', token)] @
     (case ip of None \<Rightarrow> [] | Some a \<Rightarrow> if a = [] then [] else [(''remoteip'', a)])"

text \<open>The body of the \<open>try\<close> block once the post has resolved with data \<open>b\<close>.\<close>

definition relay :: "body \<Rightarrow> error + captcha_result" where
  "relay b =
     (case jsField b ''success'' of
        Inl e \<Rightarrow> Inl e
      | Inr s \<Rightarrow>
          (case (jsField b ''challenge_ts'', jsField b ''hostname'', jsField b ''error-codes'',
                 jsField b ''action'', jsField b ''cdata'') of
             (Inr c, Inr h, Inr e, Inr a, Inr d) \<Rightarrow>
               Inr \<lparr>success = s, challenge_ts = c, hostname = h, errorCodes = e,
                    action = a, cdata = d\<rparr>
           | _ \<Rightarrow> Inl TypeError))"

definition verify ::
  "config \<Rightarrow> string option \<Rightarrow> string option \<Rightarrow> world \<Rightarrow> captcha_result \<times> world" where
  "verify cfg token ip w0 =
     (let w = emit (Verify token ip) w0
      in if \<not> captchaEnabled cfg then (onlySuccess, w)
         else
           (case token of
              None \<Rightarrow> (failedWith ''missing-input-response'', w)
            | Some t \<Rightarrow>
                if t = [] then (failedWith ''missing-input-response'', w)
                else
                  (let w1 = emit (HttpPost (formData cfg t ip)) w
                   in case provider w1 (formData cfg t ip) of
                        PostThrows \<Rightarrow> (failedWith ''verification-error'', w1)
                      | PostReturns b \<Rightarrow>
                          (case relay b of
                             Inl e \<Rightarrow> (failedWith ''verification-error'', w1)
                           | Inr r \<Rightarrow> (r, w1)))))"


section \<open>BlockchainService\<close>

record tx_result =
  hash :: string
  txFrom :: string
  txTo :: string
  txAmount :: rat
  gasUsed :: nat

text \<open>
  \<open>formatEther\<close> writes a balance in wei as a decimal numeral of tokens, with all of its
  digits; the numeral is given by its value.
\<close>

definition formatEther :: "nat \<Rightarrow> rat" where
  "formatEther wei = of_nat wei / 10 ^ 18"

definition getBalance :: "world \<Rightarrow> (error + rat) \<times> world" where
  "getBalance w0 =
     (let w = emit GetBalance w0
      in case primaryBalance (node w) of
           Some b \<Rightarrow> (Inr (formatEther b), w)
         | None \<Rightarrow>
             (case fallbackBalance (node w) of
                Some (Some b) \<Rightarrow> (Inr (formatEther b), w)
              | _ \<Rightarrow> (Inl BalanceUnavailable, w)))"

text \<open>Division of big integers truncates towards zero.\<close>

definition bigIntDiv :: "int \<Rightarrow> int \<Rightarrow> int" where
  "bigIntDiv a b = sgn a * sgn b * (\<bar>a\<bar> div \<bar>b\<bar>)"

text \<open>
  The multiplier times 100 is a product of numbers, so it is rounded before
  \<open>Math.floor\<close>; \<open>BigInt\<close> throws on a number that is not finite.
\<close>

definition getGasPrice :: "config \<Rightarrow> world \<Rightarrow> error + int" where
  "getGasPrice cfg w =
     (case feeGasPrice (node w) of
        None \<Rightarrow> Inl RpcError
      | Some g \<Rightarrow>
          (let gasPrice = (case g of None \<Rightarrow> 0 | Some p \<Rightarrow> int p)
           in case mulNumber (gasPriceMultiplier cfg) 100 of
                Finite m \<Rightarrow> Inr (bigIntDiv (gasPrice * \<lfloor>m\<rfloor>) 100)
              | _ \<Rightarrow> Inl RangeError))"

definition sendTokens ::
  "config \<Rightarrow> string \<Rightarrow> string \<Rightarrow> world \<Rightarrow> (error + tx_result) \<times> world" where
  "sendTokens cfg toAddress requestId w0 =
     (let w = emit (SendTokens toAddress requestId) w0
      in case ethersGetAddress (node w) toAddress of
           None \<Rightarrow> (Inl InvalidRecipient, w)
         | Some checksumAddress \<Rightarrow>
             (case pendingNonce (node w) of
                None \<Rightarrow> (Inl RpcError, w)
              | Some nonce \<Rightarrow>
                  (case getGasPrice cfg w of
                     Inl e \<Rightarrow> (Inl e, w)
                   | Inr gasPrice \<Rightarrow>
                       (case parseEther (node w) (faucetAmount cfg) of
                          None \<Rightarrow> (Inl InvalidArgument, w)
                        | Some val \<Rightarrow>
                            (let w1 = emit (SendTransaction checksumAddress val nonce gasPrice) w
                             in case submittedHash (node w1) of
                                  None \<Rightarrow> (Inl RpcError, w1)
                                | Some h \<Rightarrow>
                                    (case receipt (node w1) of
                                       WaitThrows \<Rightarrow> (Inl RpcError, w1)
                                     | NoReceipt \<Rightarrow> (Inl ReceiptNull, w1)
                                     | Receipt status used \<Rightarrow>
                                         if status \<noteq> 1 then (Inl TxFailedOnChain, w1)
                                         else (Inr \<lparr>hash = h, txFrom = walletAddress (node w1),
                                                    txTo = checksumAddress,
                                                    txAmount = faucetAmount cfg,
                                                    gasUsed = used\<rparr>, w1)))))))"

section \<open>FaucetService\<close>

record faucet_request =
  address :: string
  captchaToken :: string
  ipAddress :: string
  requestId :: string

record faucet_response =
  txHash :: string
  responseAddress :: string
  amount :: rat
  timestamp :: int

record cooldown =
  canRequest :: bool
  cooldownEndsAt :: "int option"
  remainingTime :: "int option"

definition hexDigits :: string where
  "hexDigits = ''abcdefABCDEF0123456789''"

text \<open>The regular expression \<open>^0x[a-fA-F0-9]{40}$\<close>.\<close>

definition isValidAddress :: "string \<Rightarrow> bool" where
  "isValidAddress a =
     (take 2 a = ''0x'' \<and> length a = 42 \<and> list_all (\<lambda>c. c \<in> set hexDigits) (drop 2 a))"

definition ipKey :: "string \<Rightarrow> string" where
  "ipKey ip = ''ip:'' @ ip"

definition addressKey :: "string \<Rightarrow> string" where
  "addressKey a = ''address:'' @ toLowerCase a"

definition checkIPRateLimit :: "config \<Rightarrow> string \<Rightarrow> world \<Rightarrow> rate_limit \<times> world" where
  "checkIPRateLimit cfg ip w = checkRateLimit (ipKey ip) (ipMaxRequests cfg) (ipWindowMs cfg) w"

definition checkAddressRateLimit :: "config \<Rightarrow> string \<Rightarrow> world \<Rightarrow> rate_limit \<times> world" where
  "checkAddressRateLimit cfg a w =
     checkRateLimit (addressKey a) (addressMaxRequests cfg) (addressWindowMs cfg) w"

definition defaultStats :: stats where
  "defaultStats =
     \<lparr>totalRequests = Finite 0, successfulRequests = Finite 0, failedRequests = Finite 0,
      totalDistributed = Finite 0, lastRequest = None\<rparr>"

text \<open>
  \<open>JSON.parse\<close> of the stats blob. A stored stats document parses to itself. Any other
  value makes the update stop in its \<open>catch\<close>; what JavaScript computes from a JSON text
  of another shape (an empty object, an array) is not modelled, and the program itself
  never writes one under this key. The facts about the statistics below are stated for a
  stats key that is empty or holds a stats document.
\<close>

definition parseStats :: "redis_value \<Rightarrow> error + stats" where
  "parseStats v =
     (case v of
        Json (StatsDoc s) \<Rightarrow> Inr s
      | Json (RequestDoc r) \<Rightarrow> Inl TypeError
      | Text t \<Rightarrow> Inl SyntaxError)"

text \<open>\<open>n += 1\<close> on a counter of the stats object: the sum is rounded; null counts as 0.\<close>

definition increment :: "jsnum \<Rightarrow> jsnum" where
  "increment x = (case x of Finite v \<Rightarrow> toDouble (v + 1) | _ \<Rightarrow> Finite 1)"

text \<open>
  \<open>updateStats(address, txHash)\<close> awaits the read of the stats blob, computes the new
  object and awaits the two writes. \<open>updateStatsRead\<close> is the call up to the answer of the
  read, \<open>updateStatsWrite\<close> the rest of it, given that answer.
\<close>

definition updateStatsRead :: "string \<Rightarrow> string \<Rightarrow> world \<Rightarrow> redis_value option \<times> world" where
  "updateStatsRead a h w0 = redisGet ''stats'' (emit (UpdateStats a h) w0)"

definition updateStatsWrite ::
  "config \<Rightarrow> string \<Rightarrow> string \<Rightarrow> redis_value option \<Rightarrow> world \<Rightarrow> world" where
  "updateStatsWrite cfg a h statsData w1 =
     (case (if falsy statsData then Inr defaultStats
            else (case statsData of None \<Rightarrow> Inr defaultStats | Some v \<Rightarrow> parseStats v)) of
        Inl e \<Rightarrow> w1
      | Inr st \<Rightarrow>
          (let st1 = st\<lparr>totalRequests := increment (totalRequests st),
                        successfulRequests := increment (successfulRequests st),
                        totalDistributed :=
                          addNumber (totalDistributed st) (Finite (faucetAmount cfg)),
                        lastRequest := Some (now w1)\<rparr>;
               (ok1, w2) = redisSet ''stats'' (Json (StatsDoc st1)) w1;
               (ok2, w3) = redisSetex (''request:'' @ h) (86400 * 7)
                             (Json (RequestDoc \<lparr>recAddress = a, recTxHash = h,
                                               recAmount = faucetAmount cfg,
                                               recTimestamp = now w2\<rparr>)) w2
           in w3))"

definition updateStats :: "config \<Rightarrow> string \<Rightarrow> string \<Rightarrow> world \<Rightarrow> world" where
  "updateStats cfg a h w0 =
     (let (statsData, w1) = updateStatsRead a h w0
      in updateStatsWrite cfg a h statsData w1)"

text \<open>\<open>Math.ceil(ms / unit)\<close> for a positive unit.\<close>

definition ceilDiv :: "int \<Rightarrow> int \<Rightarrow> int" where
  "ceilDiv ms unit = - ((- ms) div unit)"

text \<open>
  Step 5 reads the balance string with \<open>parseFloat\<close> and compares two numbers: the
  balance as a double with the double \<open>amount * 2\<close>.
\<close>

definition processRequest ::
  "config \<Rightarrow> faucet_request \<Rightarrow> world \<Rightarrow> (error + faucet_response) \<times> world" where
  "processRequest cfg request w =
     (if \<not> isValidAddress (address request) then (Inl InvalidAddress, w)
      else
        (let (captchaResult, w1) =
               verify cfg (Some (captchaToken request)) (Some (ipAddress request)) w
         in if \<not> truthy (success captchaResult) then (Inl CaptchaFailed, w1)
            else
              (let (ipRateLimit, w2) = checkIPRateLimit cfg (ipAddress request) w1
               in if \<not> allowed ipRateLimit
                  then (Inl (IpRateLimit (ceilDiv (resetAt ipRateLimit - now w2) 60000)), w2)
                  else
                    (let (addressRateLimit, w3) = checkAddressRateLimit cfg (address request) w2
                     in if \<not> allowed addressRateLimit
                        then (Inl (AddressRateLimit
                                     (ceilDiv (resetAt addressRateLimit - now w3) 3600000)), w3)
                        else
                          (case getBalance w3 of
                             (Inl e, w4) \<Rightarrow> (Inl e, w4)
                           | (Inr balance, w4) \<Rightarrow>
                               if ltNumber (parseFloat balance) (mulNumber (faucetAmount cfg) 2)
                               then (Inl BalanceTooLow, w4)
                               else
                                 (case sendTokens cfg (address request) (requestId request) w4 of
                                    (Inl e, w5) \<Rightarrow> (Inl e, w5)
                                  | (Inr txResult, w5) \<Rightarrow>
                                      (let w6 = updateStats cfg (address request)
                                                  (hash txResult) w5
                                       in (Inr \<lparr>txHash = hash txResult,
                                                 responseAddress = txTo txResult,
                                                 amount = txAmount txResult,
                                                 timestamp = now w6\<rparr>, w6))))))))"

definition checkCooldown :: "config \<Rightarrow> string \<Rightarrow> world \<Rightarrow> cooldown \<times> world" where
  "checkCooldown cfg a w =
     (let (rateLimit, w1) =
            checkRateLimit (addressKey a) (addressMaxRequests cfg) (addressWindowMs cfg) w
      in if allowed rateLimit
         then (\<lparr>canRequest = True, cooldownEndsAt = None, remainingTime = None\<rparr>, w1)
         else (\<lparr>canRequest = False, cooldownEndsAt = Some (resetAt rateLimit),
                remainingTime = Some (resetAt rateLimit - now w1)\<rparr>, w1))"

section \<open>Observations on a run\<close>

text \<open>The events a run from \<open>w\<close> to \<open>w'\<close> has added to the log.\<close>

definition newEvents :: "world \<Rightarrow> world \<Rightarrow> event list" where
  "newEvents w w' = drop (length (trace w)) (trace w')"

text \<open>
  Calls on the services, as opposed to the outbound operations a call performs inside
  (the HTTP post, the transaction submission).
\<close>

definition isCall :: "event \<Rightarrow> bool" where
  "isCall e = (case e of HttpPost fd \<Rightarrow> False | SendTransaction a v n g \<Rightarrow> False | _ \<Rightarrow> True)"

definition isSend :: "event \<Rightarrow> bool" where
  "isSend e = (case e of SendTokens a i \<Rightarrow> True | SendTransaction a v n g \<Rightarrow> True | _ \<Rightarrow> False)"

text \<open>
  The run from \<open>w\<close> to \<open>w'\<close> only added to the log, and the service calls it added are
  exactly \<open>cs\<close>, in this order.
\<close>

definition madeCalls :: "world \<Rightarrow> world \<Rightarrow> event list \<Rightarrow> bool" where
  "madeCalls w w' cs =
     (take (length (trace w)) (trace w') = trace w \<and> filter isCall (newEvents w w') = cs)"

text \<open>
  The service calls of a request that passes every step, in the order of steps 2 to 7;
  \<open>h\<close> is the hash of the confirmed transaction.
\<close>

definition pipeline :: "config \<Rightarrow> faucet_request \<Rightarrow> string \<Rightarrow> event list" where
  "pipeline cfg request h =
     [Verify (Some (captchaToken request)) (Some (ipAddress request)),
      CheckRateLimit (ipKey (ipAddress request)) (ipMaxRequests cfg) (ipWindowMs cfg),
      CheckRateLimit (addressKey (address request)) (addressMaxRequests cfg)
        (addressWindowMs cfg),
      GetBalance,
      SendTokens (address request) (requestId request),
      UpdateStats (address request) h]"



text \<open>
  The count held under a key now: the integer the stored string denotes, which
  \<open>parseInt\<close> reads from it before it rounds it to a number.
\<close>

definition storedCount :: "world \<Rightarrow> string \<Rightarrow> int option" where
  "storedCount w key =
     (case map_option fst (lookup w key) of Some (Text s) \<Rightarrow> parseIntValue s | _ \<Rightarrow> None)"

text \<open>The expiry time of a key, if it has one.\<close>

definition expiryOf :: "world \<Rightarrow> string \<Rightarrow> int option" where
  "expiryOf w key = (case redis w key of None \<Rightarrow> None | Some (v, e) \<Rightarrow> e)"

text \<open>The statistics as stored now: the stats document, or the defaults.\<close>

definition currentStats :: "world \<Rightarrow> stats" where
  "currentStats w =
     (case lookup w ''stats'' of
        Some (Json (StatsDoc s), e) \<Rightarrow> s
      | _ \<Rightarrow> defaultStats)"

text \<open>The stats key holds nothing, the empty string or a stats document.\<close>

definition statsReadable :: "world \<Rightarrow> bool" where
  "statsReadable w =
     (case lookup w ''stats'' of
        None \<Rightarrow> True
      | Some (Json (StatsDoc s), e) \<Rightarrow> True
      | Some (Json (RequestDoc r), e) \<Rightarrow> False
      | Some (Text t, e) \<Rightarrow> t = [])"

text \<open>
  Sequential calls of \<open>checkRateLimit\<close> with one key, limit and window; each element of the
  list is the time that passes before the next call.
\<close>

fun calls :: "string \<Rightarrow> int \<Rightarrow> int \<Rightarrow> int list \<Rightarrow> world \<Rightarrow> rate_limit list \<times> world" where
  "calls key limit windowMs [] w = ([], w)"
| "calls key limit windowMs (d # ds) w =
     (let (r, w1) = checkRateLimit key limit windowMs (tick d w);
          (rs, w2) = calls key limit windowMs ds w1
      in (r # rs, w2))"

text \<open>
  Two calls of \<open>checkRateLimit\<close> that overlap: both reads are answered before either
  call goes on.
\<close>

definition overlappingCalls ::
  "string \<Rightarrow> int \<Rightarrow> int \<Rightarrow> world \<Rightarrow> (rate_limit \<times> rate_limit) \<times> world" where
  "overlappingCalls key limit windowMs w =
     (let (got1, w1) = checkRateLimitRead key limit windowMs w;
          (got2, w2) = checkRateLimitRead key limit windowMs w1;
          (r1, w3) = checkRateLimitFinish key limit windowMs got1 w2;
          (r2, w4) = checkRateLimitFinish key limit windowMs got2 w3
      in ((r1, r2), w4))"

text \<open>
  The stats updates of two requests that overlap: both reads are answered before either
  update writes.
\<close>

definition overlappingUpdates ::
  "config \<Rightarrow> string \<Rightarrow> string \<Rightarrow> string \<Rightarrow> string \<Rightarrow> world \<Rightarrow> world" where
  "overlappingUpdates cfg a1 h1 a2 h2 w =
     (let (s1, w1) = updateStatsRead a1 h1 w;
          (s2, w2) = updateStatsRead a2 h2 w1;
          w3 = updateStatsWrite cfg a1 h1 s1 w2
      in updateStatsWrite cfg a2 h2 s2 w3)"

text \<open>The HTTP post \<open>verify\<close> makes, if it makes one.\<close>

definition verifyPosts :: "config \<Rightarrow> string option \<Rightarrow> string option \<Rightarrow> event list" where
  "verifyPosts cfg t ip =
     (case t of
        None \<Rightarrow> []
      | Some x \<Rightarrow> if captchaEnabled cfg \<and> x \<noteq> [] then [HttpPost (formData cfg x ip)] else [])"

text \<open>The transaction \<open>sendTokens\<close> submits, if it gets as far.\<close>

definition sendSubmits :: "config \<Rightarrow> string \<Rightarrow> world \<Rightarrow> event list" where
  "sendSubmits cfg a w =
     (case ethersGetAddress (node w) a of
        None \<Rightarrow> []
      | Some x \<Rightarrow>
          (case pendingNonce (node w) of
             None \<Rightarrow> []
           | Some n \<Rightarrow>
               (case getGasPrice cfg w of
                  Inl e \<Rightarrow> []
                | Inr g \<Rightarrow>
                    (case parseEther (node w) (faucetAmount cfg) of
                       None \<Rightarrow> []
                     | Some v \<Rightarrow> [SendTransaction x v n g]))))"

text \<open>
  The world a run of \<open>processRequest\<close> has reached after the captcha verification, the IP
  check, the address check, the balance read and the send, if it gets that far.
\<close>

definition afterVerify :: "config \<Rightarrow> faucet_request \<Rightarrow> world \<Rightarrow> world" where
  "afterVerify cfg request w =
     snd (verify cfg (Some (captchaToken request)) (Some (ipAddress request)) w)"

definition afterIp :: "config \<Rightarrow> faucet_request \<Rightarrow> world \<Rightarrow> world" where
  "afterIp cfg request w =
     snd (checkIPRateLimit cfg (ipAddress request) (afterVerify cfg request w))"

definition afterAddress :: "config \<Rightarrow> faucet_request \<Rightarrow> world \<Rightarrow> world" where
  "afterAddress cfg request w =
     snd (checkAddressRateLimit cfg (address request) (afterIp cfg request w))"

definition afterBalance :: "config \<Rightarrow> faucet_request \<Rightarrow> world \<Rightarrow> world" where
  "afterBalance cfg request w = snd (getBalance (afterAddress cfg request w))"

definition afterSend :: "config \<Rightarrow> faucet_request \<Rightarrow> world \<Rightarrow> world" where
  "afterSend cfg request w =
     snd (sendTokens cfg (address request) (requestId request) (afterBalance cfg request w))"

text \<open>Steps 1 to 4 let the request through: the run reaches the balance check.\<close>

definition passesChecks :: "config \<Rightarrow> faucet_request \<Rightarrow> world \<Rightarrow> bool" where
  "passesChecks cfg request w =
     (isValidAddress (address request)
      \<and> truthy (success (fst (verify cfg (Some (captchaToken request))
                                  (Some (ipAddress request)) w)))
      \<and> allowed (fst (checkIPRateLimit cfg (ipAddress request) (afterVerify cfg request w)))
      \<and> allowed (fst (checkAddressRateLimit cfg (address request) (afterIp cfg request w))))"

text \<open>What the balance read of step 5 returns, and what the send of step 6 returns.\<close>

definition balanceRead :: "config \<Rightarrow> faucet_request \<Rightarrow> world \<Rightarrow> error + rat" where
  "balanceRead cfg request w = fst (getBalance (afterAddress cfg request w))"

definition sendResult :: "config \<Rightarrow> faucet_request \<Rightarrow> world \<Rightarrow> error + tx_result" where
  "sendResult cfg request w =
     fst (sendTokens cfg (address request) (requestId request) (afterBalance cfg request w))"

text \<open>Steps 1 to 5 let the request through: the run reaches the send.\<close>

definition reachesSend :: "config \<Rightarrow> faucet_request \<Rightarrow> world \<Rightarrow> bool" where
  "reachesSend cfg request w =
     (passesChecks cfg request w
      \<and> (case balanceRead cfg request w of
            Inl e \<Rightarrow> False
          | Inr balance \<Rightarrow>
              \<not> ltNumber (parseFloat balance) (mulNumber (faucetAmount cfg) 2)))"

definition isAddressRateLimit :: "error + faucet_response \<Rightarrow> bool" where
  "isAddressRateLimit res = (case res of Inl (AddressRateLimit h) \<Rightarrow> True | _ \<Rightarrow> False)"

text \<open>The store command number \<open>n\<close> from now (counting from 0) is scripted to throw.\<close>

definition nthFault :: "world \<Rightarrow> nat \<Rightarrow> bool" where
  "nthFault w n = (n < length (faults w) \<and> faults w ! n)"

section \<open>Example inputs\<close>

text \<open>An address in its checksum form, which the ethers library accepts.\<close>

definition exampleAddress :: string where
  "exampleAddress = ''0x742D35CC6634c0532925A3b844BC9E7595F0BEb0''"

text \<open>The double nearest to 0.1, whose \<open>toString\<close> is \<open>0.1\<close>.\<close>

definition tenth :: rat where
  "tenth = 3602879701896397 / 36028797018963968"

text \<open>
  A node that answers every call. Of the two library functions it gives what they
  answer on the inputs used below: the example address, in checksum form or in lower
  case, and the amounts 10 and 0.1.
\<close>

definition exampleNode :: chain_env where
  "exampleNode =
     \<lparr>walletAddress = ''0xFaucet'',
      ethersGetAddress =
        (\<lambda>a. if a = exampleAddress \<or> a = ''0x742d35cc6634c0532925a3b844bc9e7595f0beb0''
              then Some exampleAddress else None),
      parseEther =
        (\<lambda>a. if a = 10 then Some (10 * 10 ^ 18) else if a = tenth then Some (10 ^ 17) else None),
      primaryBalance = Some (1000 * 10 ^ 18),
      fallbackBalance = None, pendingNonce = Some 7, feeGasPrice = Some (Some 100),
      submittedHash = Some ''0xabc'', receipt = Receipt 1 21000\<rparr>"

definition exampleWorld :: world where
  "exampleWorld =
     \<lparr>now = 1700000000000, redis = Map.empty, faults = [],
      provider = (\<lambda>fd. PostReturns (BodyObject [(''success'', JBool True)])),
      node = exampleNode, trace = []\<rparr>"

definition exampleRequest :: faucet_request where
  "exampleRequest =
     \<lparr>address = exampleAddress, captchaToken = ''token'',
      ipAddress = ''10.0.0.1'', requestId = ''req_1''\<rparr>"

definition exampleTx :: tx_result where
  "exampleTx =
     \<lparr>hash = ''0xabc'', txFrom = ''0xFaucet'', txTo = exampleAddress, txAmount = 10,
      gasUsed = 21000\<rparr>"

text \<open>The store refuses the next five commands.\<close>

definition downWorld :: world where
  "downWorld = exampleWorld\<lparr>faults := [True, True, True, True, True]\<rparr>"

text \<open>The treasury holds 15 tokens, less than twice the amount of 10.\<close>

definition lowWorld :: world where
  "lowWorld = exampleWorld\<lparr>node := exampleNode\<lparr>primaryBalance := Some (15 * 10 ^ 18)\<rparr>\<rparr>"

text \<open>The treasury holds one wei less than 20 tokens.\<close>

definition nearlyWorld :: world where
  "nearlyWorld =
     exampleWorld\<lparr>node := exampleNode\<lparr>primaryBalance := Some 19999999999999999999\<rparr>\<rparr>"

text \<open>The store holds the statistics \<open>s\<close>.\<close>

definition statsWorld :: "stats \<Rightarrow> world" where
  "statsWorld s = exampleWorld\<lparr>redis := [''stats'' \<mapsto> (Json (StatsDoc s), None)]\<rparr>"


text \<open>The amount is 0.1 tokens.\<close>

definition tenthConfig :: config where
  "tenthConfig = defaultConfig\<lparr>faucetAmount := tenth\<rparr>"


section \<open>Rounding to a double\<close>

lemma floor_rat_numeral: "\<lfloor>(numeral a :: rat) / numeral b\<rfloor> = numeral a div numeral b"
  using floor_divide_of_int_eq[of "numeral a" "numeral b", where ?'a = rat] by simp

lemma ceiling_rat_numeral: "\<lceil>(numeral a :: rat) / numeral b\<rceil> = - ((- numeral a) div numeral b)"
  using ceiling_divide_eq_div[of "numeral a" "numeral b", where ?'a = rat] by simp

lemma floor_rat_neg_numeral: "\<lfloor>- ((numeral a :: rat) / numeral b)\<rfloor> = (- numeral a) div numeral b"
  using floor_divide_of_int_eq[of "- numeral a" "numeral b", where ?'a = rat] by simp

lemmas double_eval = toDouble_def floorLog2_def roundHalfEven_def bitLength.simps Let_def
  power_int_minus_divide floor_rat_numeral ceiling_rat_numeral floor_rat_neg_numeral

lemma bitLength_upper: "n < 2 ^ bitLength n"
proof (induction n rule: bitLength.induct)
  case (1 n)
  show ?case
  proof (cases "n = 0")
    case True
    then show ?thesis by (simp add: bitLength.simps)
  next
    case False
    with 1 have "n div 2 < 2 ^ bitLength (n div 2)" by simp
    then have "n < 2 * 2 ^ bitLength (n div 2)" by linarith
    with False show ?thesis by (subst bitLength.simps) simp
  qed
qed

lemma bitLength_lower: "0 < n \<Longrightarrow> 2 ^ bitLength n \<le> 2 * n"
proof (induction n rule: bitLength.induct)
  case (1 n)
  then have n: "n \<noteq> 0" by simp
  show ?case
  proof (cases "n div 2 = 0")
    case True
    then have "bitLength (n div 2) = 0" by (simp add: bitLength.simps)
    with n 1(2) show ?thesis by (subst bitLength.simps) simp
  next
    case False
    with 1(1)[OF n] have "2 ^ bitLength (n div 2) \<le> 2 * (n div 2)" by simp
    then have "2 * 2 ^ bitLength (n div 2) \<le> 2 * n" by linarith
    with n show ?thesis by (subst bitLength.simps) simp
  qed
qed

lemma bitLength_pos: "0 < n \<Longrightarrow> 0 < bitLength n"
  by (subst bitLength.simps) simp

lemma bitLength_mono: "m \<le> n \<Longrightarrow> bitLength m \<le> bitLength n"
proof (cases "m = 0")
  case True
  then show ?thesis by (simp add: bitLength.simps)
next
  case False
  assume mn: "m \<le> n"
  show ?thesis
  proof (rule ccontr)
    assume "\<not> bitLength m \<le> bitLength n"
    then have "Suc (bitLength n) \<le> bitLength m" by simp
    then have "(2::nat) ^ Suc (bitLength n) \<le> 2 ^ bitLength m"
      by (rule power_increasing) simp
    also have "\<dots> \<le> 2 * m" using False by (intro bitLength_lower) simp
    finally have "2 ^ bitLength n \<le> m" by simp
    with bitLength_upper[of n] mn show False by linarith
  qed
qed

lemma bitLength_less: "n < 2 ^ k \<Longrightarrow> bitLength n \<le> k"
proof (cases "n = 0")
  case True
  then show ?thesis by (simp add: bitLength.simps)
next
  case False
  assume nk: "n < 2 ^ k"
  show ?thesis
  proof (rule ccontr)
    assume "\<not> bitLength n \<le> k"
    then have "Suc k \<le> bitLength n" by simp
    then have "(2::nat) ^ Suc k \<le> 2 ^ bitLength n"
      by (rule power_increasing) simp
    also have "\<dots> \<le> 2 * n" using False by (intro bitLength_lower) simp
    finally show False using nk by simp
  qed
qed

lemma roundHalfEven_of_int: "roundHalfEven (of_int j) = j"
  by (simp add: roundHalfEven_def)

lemma roundHalfEven_ge_floor: "\<lfloor>x\<rfloor> \<le> roundHalfEven x"
  by (simp add: roundHalfEven_def Let_def)

lemma roundHalfEven_lower: "of_int j \<le> x \<Longrightarrow> j \<le> roundHalfEven x"
proof -
  assume "of_int j \<le> x"
  then have "j \<le> \<lfloor>x\<rfloor>" by (simp add: le_floor_iff)
  with roundHalfEven_ge_floor[of x] show ?thesis by linarith
qed

text \<open>The exponent of the last place of a positive integer.\<close>

lemma floorLog2_int: "1 \<le> k \<Longrightarrow> floorLog2 (of_int k) = int (bitLength (nat k)) - 1"
  by (simp add: floorLog2_def)

lemma exponent_int:
  assumes "1 \<le> k"
  shows "max (floorLog2 \<bar>of_int k\<bar> - 52) (- 1074) = int (bitLength (nat k)) - 53"
proof -
  have "\<bar>of_int k :: rat\<bar> = of_int k" using assms by simp
  then show ?thesis using assms by (simp add: floorLog2_int)
qed

lemma toDouble_int:
  assumes "1 \<le> k"
  shows "toDouble (of_int k) =
           (let e = int (bitLength (nat k)) - 53;
                v = of_int (roundHalfEven (of_int k / 2 powi e)) * 2 powi e
            in if 2 ^ 1024 \<le> v then Infinity
               else if v \<le> - (2 ^ 1024) then NegInfinity
               else Finite v)"
proof -
  have "of_int k \<noteq> (0::rat)" using assms by simp
  then show ?thesis
    unfolding toDouble_def exponent_int[OF assms] by simp
qed

lemma int_bounds:
  assumes "1 \<le> k"
  shows "(2::rat) powi (int (bitLength (nat k)) - 1) \<le> of_int k"
    and "of_int k < (2::rat) powi (int (bitLength (nat k)))"
proof -
  let ?b = "bitLength (nat k)"
  have pos: "0 < nat k" using assms by simp
  have b: "0 < ?b" using pos by (rule bitLength_pos)
  have "2 ^ ?b \<le> 2 * nat k" using pos by (rule bitLength_lower)
  then have "2 * 2 ^ (?b - 1) \<le> 2 * nat k" using b by (cases ?b) simp_all
  then have "2 ^ (?b - 1) \<le> nat k" by simp
  then have "int (2 ^ (?b - 1)) \<le> k" using assms by linarith
  then have "(of_int (int (2 ^ (?b - 1))) :: rat) \<le> of_int k" by (simp only: of_int_le_iff)
  moreover have "(2::rat) powi (int ?b - 1) = 2 ^ (?b - 1)"
    using b by (simp add: power_int_def nat_diff_distrib)
  ultimately show "(2::rat) powi (int ?b - 1) \<le> of_int k" by simp
  have "nat k < 2 ^ ?b" by (rule bitLength_upper)
  then have "k < int (2 ^ ?b)" using assms by linarith
  then have "(of_int k :: rat) < of_int (int (2 ^ ?b))" by (simp only: of_int_less_iff)
  then show "of_int k < (2::rat) powi (int ?b)" by simp
qed

lemma pow2_below: "b \<le> 53 \<Longrightarrow> (2::rat) powi (int b - 53) = 1 / 2 ^ (53 - b)"
proof -
  assume b: "b \<le> 53"
  have "int b - 53 = - int (53 - b)" using b by linarith
  then have "(2::rat) powi (int b - 53) = 2 powi (- int (53 - b))" by (simp only:)
  also have "\<dots> = 1 / 2 powi (int (53 - b))" by (rule power_int_minus_divide)
  also have "\<dots> = 1 / 2 ^ (53 - b)" by (simp only: power_int_of_nat)
  finally show ?thesis .
qed

lemma toDouble_two53: "toDouble 9007199254740992 = Finite 9007199254740992"
  by (simp add: double_eval)

lemma toDouble_exact:
  assumes "0 \<le> k" "k \<le> 2 ^ 53"
  shows "toDouble (of_int k) = Finite (of_int k)"
proof -
  consider "k = 0" | "k = 2 ^ 53" | "1 \<le> k" "k < 2 ^ 53" using assms by linarith
  then show ?thesis
  proof cases
    case 1
    then show ?thesis by (simp add: toDouble_def)
  next
    case 2
    then show ?thesis using toDouble_two53 by simp
  next
    case 3
    let ?b = "bitLength (nat k)"
    have "nat k < 2 ^ 53" using 3 by (simp add: nat_less_iff)
    then have b: "?b \<le> 53" by (rule bitLength_less)
    let ?s = "53 - ?b"
    have e: "(2::rat) powi (int ?b - 53) = 1 / 2 ^ ?s"
      using b by (rule pow2_below)
    have q: "(of_int k :: rat) / (1 / 2 ^ ?s) = of_int (k * 2 ^ ?s)" by simp
    have v: "of_int (roundHalfEven (of_int k / (1 / 2 ^ ?s))) * (1 / 2 ^ ?s) = (of_int k :: rat)"
      unfolding q roundHalfEven_of_int by simp
    have "(of_int k :: rat) < of_int (2 ^ 53)" using 3(2) by (simp only: of_int_less_iff)
    then have small: "\<not> (2::rat) ^ 1024 \<le> of_int k" by simp
    have "(0::rat) \<le> of_int k" using assms(1) by simp
    then have notneg: "\<not> (of_int k :: rat) \<le> - (2 ^ 1024)" by simp
    show ?thesis
      unfolding toDouble_int[OF 3(1)] Let_def e v using small notneg by simp
  qed
qed

lemma isNumber_small: "0 \<le> n \<Longrightarrow> n \<le> 2 ^ 53 \<Longrightarrow> isNumber n"
  by (simp add: isNumber_def toDouble_exact)

text \<open>Rounding does not take a count below a limit it has reached.\<close>

lemma toDouble_reaches:
  assumes "1 \<le> L" "L \<le> c" "isNumber L"
  shows "geNumber (toDouble (of_int c)) L"
proof -
  let ?bL = "bitLength (nat L)" and ?bc = "bitLength (nat c)"
  let ?eL = "int ?bL - 53" and ?ec = "int ?bc - 53"
  let ?vL = "of_int (roundHalfEven (of_int L / 2 powi ?eL)) * (2::rat) powi ?eL"
  let ?vc = "of_int (roundHalfEven (of_int c / 2 powi ?ec)) * (2::rat) powi ?ec"
  have c1: "1 \<le> c" using assms(1,2) by simp
  have pe: "\<And>e. (0::rat) < 2 powi e" by (simp add: zero_less_power_int)
  have vL: "?vL = of_int L"
    using assms(3) unfolding isNumber_def toDouble_int[OF assms(1)] Let_def
    by (simp split: if_splits)
  have mono: "?bL \<le> ?bc" using assms(1,2) by (intro bitLength_mono) simp
  have key: "of_int L \<le> ?vc"
  proof (cases "?bL = ?bc")
    case True
    let ?m = "roundHalfEven (of_int L / 2 powi ?eL)"
    have "of_int L / 2 powi ?eL = (of_int ?m :: rat)"
      using vL pe[of ?eL] by (simp add: field_simps)
    moreover have "(of_int L :: rat) / 2 powi ?eL \<le> of_int c / 2 powi ?eL"
      using assms(2) pe[of ?eL] by (simp add: divide_right_mono)
    ultimately have "(of_int ?m :: rat) \<le> of_int c / 2 powi ?ec" using True by simp
    then have "?m \<le> roundHalfEven (of_int c / 2 powi ?ec)" by (rule roundHalfEven_lower)
    then have "(of_int ?m :: rat) \<le> of_int (roundHalfEven (of_int c / 2 powi ?ec))"
      by (simp only: of_int_le_iff)
    then have "of_int ?m * (2::rat) powi ?ec \<le> ?vc"
      using pe[of ?ec] by (simp add: mult_right_mono)
    with vL True show ?thesis by simp
  next
    case False
    with mono have lt: "?bL < ?bc" by simp
    have low: "(2::rat) powi (int ?bc - 1) \<le> of_int c" using c1 by (rule int_bounds(1))
    have split: "(2::rat) powi (int ?bc - 1) = 2 powi ?ec * 2 ^ 52"
    proof -
      have "int ?bc - 1 = ?ec + 52" by linarith
      then have "(2::rat) powi (int ?bc - 1) = 2 powi (?ec + 52)" by (simp only:)
      also have "\<dots> = 2 powi ?ec * 2 powi 52" by (rule power_int_add) simp
      also have "\<dots> = 2 powi ?ec * 2 ^ 52" by (simp only: power_int_numeral)
      finally show ?thesis .
    qed
    have "(of_int (2 ^ 52) :: rat) \<le> of_int c / 2 powi ?ec"
      using low pe[of ?ec] unfolding split by (simp add: field_simps)
    then have "2 ^ 52 \<le> roundHalfEven (of_int c / 2 powi ?ec)" by (rule roundHalfEven_lower)
    then have "(of_int (2 ^ 52) :: rat) \<le> of_int (roundHalfEven (of_int c / 2 powi ?ec))"
      by (simp only: of_int_le_iff)
    then have "of_int (2 ^ 52) * (2::rat) powi ?ec \<le> ?vc"
      using pe[of ?ec] by (simp add: mult_right_mono)
    then have big: "(2::rat) powi (int ?bc - 1) \<le> ?vc"
      unfolding split by (simp add: mult.commute)
    have "(of_int L :: rat) < 2 powi (int ?bL)" using assms(1) by (rule int_bounds(2))
    also have "\<dots> \<le> 2 powi (int ?bc - 1)"
      using lt by (intro power_int_increasing) simp_all
    finally show ?thesis using big by simp
  qed
  have "(1::rat) \<le> of_int L" using assms(1) by simp
  with key have "\<not> ?vc \<le> - (2 ^ 1024)" by simp
  with key show ?thesis
    unfolding toDouble_int[OF c1] Let_def geNumber_def by simp
qed

section \<open>Decimal numerals\<close>

lemma digit_cases: "n < (10::nat) \<Longrightarrow> n \<in> {0, 1, 2, 3, 4, 5, 6, 7, 8, 9}"
  by simp arith

lemma digitVal_digitChar: "digitVal (digitChar n) = n mod 10"
proof -
  have "n mod 10 < 10" by simp
  from digit_cases[OF this] show ?thesis
    by (auto simp: digitVal_def digitChar_def decimalDigits_def)
qed

lemma isDigit_digitChar: "isDigit (digitChar n)"
proof -
  have "n mod 10 < 10" by simp
  from digit_cases[OF this] show ?thesis
    by (auto simp: isDigit_def digitChar_def decimalDigits_def)
qed

lemma digitChar_zero: "digitChar n = CHR ''0'' \<longleftrightarrow> n mod 10 = 0"
proof -
  have "n mod 10 < 10" by simp
  from digit_cases[OF this] show ?thesis
    by (auto simp: digitChar_def decimalDigits_def)
qed

lemma digitsVal_snoc: "digitsVal (ds @ [c]) = 10 * digitsVal ds + digitVal c"
  by (simp add: digitsVal_def)

lemma showNat_not_Nil: "showNat n \<noteq> []"
  by (subst showNat.simps) simp

lemma showNat_digits: "list_all isDigit (showNat n)"
  by (induction n rule: showNat.induct) (subst showNat.simps, simp add: isDigit_digitChar)

lemma digitsVal_showNat: "digitsVal (showNat n) = n"
proof (induction n rule: showNat.induct)
  case (1 n)
  show ?case
  proof (cases "n < 10")
    case True
    then show ?thesis
      by (subst showNat.simps) (simp add: digitsVal_def digitVal_digitChar)
  next
    case False
    with 1 have "digitsVal (showNat (n div 10)) = n div 10" by simp
    with False show ?thesis
      by (subst showNat.simps) (simp add: digitsVal_snoc digitVal_digitChar)
  qed
qed

lemma hd_showNat: "0 < n \<Longrightarrow> hd (showNat n) \<noteq> CHR ''0''"
proof (induction n rule: showNat.induct)
  case (1 n)
  show ?case
  proof (cases "n < 10")
    case True
    with 1(2) show ?thesis
      by (subst showNat.simps) (simp add: digitChar_zero)
  next
    case False
    then have "0 < n div 10" by simp
    with 1 False have "hd (showNat (n div 10)) \<noteq> CHR ''0''" by simp
    with False show ?thesis
      by (subst showNat.simps) (simp add: showNat_not_Nil)
  qed
qed

lemma isDigit_not_space: "isDigit c \<Longrightarrow> \<not> isSpace c"
  by (auto simp: isDigit_def isSpace_def decimalDigits_def)

lemma isDigit_not_sign: "isDigit c \<Longrightarrow> c \<noteq> CHR ''-'' \<and> c \<noteq> CHR ''+''"
  by (auto simp: isDigit_def decimalDigits_def)

lemma minus_not_space: "\<not> isSpace CHR ''-''"
  by (simp add: isSpace_def)

lemma takeWhile_all: "list_all P xs \<Longrightarrow> takeWhile P xs = xs"
  by (induction xs) auto

lemma parseIntValue_digits:
  assumes "ds \<noteq> []" "list_all isDigit ds"
  shows "parseIntValue ds = Some (int (digitsVal ds))"
proof -
  obtain c r where ds: "ds = c # r" using assms(1) by (cases ds) auto
  with assms(2) have c: "isDigit c" by simp
  have dw: "dropWhile isSpace ds = ds" using ds c isDigit_not_space by simp
  have tw: "takeWhile isDigit ds = ds" using assms(2) by (rule takeWhile_all)
  have u: "(case ds of [] \<Rightarrow> [] | c # r \<Rightarrow> if c = CHR ''-'' \<or> c = CHR ''+'' then r else ds) = ds"
    using ds isDigit_not_sign[OF c] by simp
  have n: "(case ds of [] \<Rightarrow> False | c # _ \<Rightarrow> c = CHR ''-'') = False"
    using ds isDigit_not_sign[OF c] by simp
  show ?thesis
    unfolding parseIntValue_def Let_def dw u n tw using assms(1) by simp
qed

lemma parseIntValue_minus_digits:
  assumes "ds \<noteq> []" "list_all isDigit ds"
  shows "parseIntValue (CHR ''-'' # ds) = Some (- int (digitsVal ds))"
proof -
  have tw: "takeWhile isDigit ds = ds" using assms(2) by (rule takeWhile_all)
  have dw: "dropWhile isSpace (CHR ''-'' # ds) = CHR ''-'' # ds"
    by (simp add: minus_not_space)
  show ?thesis
    unfolding parseIntValue_def Let_def dw using assms(1) by (simp add: tw)
qed

lemma parseIntValue_showNat: "parseIntValue (showNat n) = Some (int n)"
  by (simp add: parseIntValue_digits showNat_not_Nil showNat_digits digitsVal_showNat)

lemma parseIntValue_showInt: "parseIntValue (showInt i) = Some i"
  by (simp add: showInt_def parseIntValue_showNat parseIntValue_minus_digits showNat_not_Nil showNat_digits digitsVal_showNat)

lemma string2ll_showNat: "0 < n \<Longrightarrow> int n \<le> 2 ^ 63 - 1 \<Longrightarrow> string2ll (showNat n) = Some (int n)"
proof -
  assume n: "0 < n" and b: "int n \<le> 2 ^ 63 - 1"
  obtain c r where s: "showNat n = c # r" using showNat_not_Nil[of n] by (cases "showNat n") auto
  have "isDigit c" using showNat_digits[of n] s by simp
  then have c: "c \<noteq> CHR ''-''" using isDigit_not_sign by blast
  have h: "c \<noteq> CHR ''0''" using hd_showNat[OF n] s by simp
  have d: "list_all isDigit (c # r)" using showNat_digits[of n] s by simp
  have v: "digitsVal (c # r) = n" using digitsVal_showNat[of n] s by simp
  show ?thesis
    unfolding string2ll_def s using c h d v b by (simp add: Let_def)
qed

lemma string2ll_parseIntValue: "string2ll s = Some v \<Longrightarrow> parseIntValue s = Some v"
proof -
  assume a: "string2ll s = Some v"
  show ?thesis
  proof (cases s)
    case Nil
    with a show ?thesis by (simp add: string2ll_def)
  next
    case (Cons c r)
    show ?thesis
    proof (cases "c = CHR ''-''")
      case True
      with a Cons have r: "r \<noteq> []" "list_all isDigit r"
        by (auto simp: string2ll_def Let_def split: if_splits)
      from a Cons True r have "v = - int (digitsVal r)"
        by (auto simp: string2ll_def Let_def split: if_splits)
      with parseIntValue_minus_digits[OF r] Cons True show ?thesis by simp
    next
      case False
      with a Cons have r: "s \<noteq> []" "list_all isDigit s"
        by (auto simp: string2ll_def Let_def split: if_splits)
      from a Cons False r have "v = int (digitsVal s)"
        by (auto simp: string2ll_def Let_def digitsVal_def digitVal_def decimalDigits_def split: if_splits)
      with parseIntValue_digits[OF r] show ?thesis by simp
    qed
  qed
qed

lemma parseInt_showNat: "parseInt (showNat n) = toDouble (of_int (int n))"
  by (simp add: parseInt_def parseIntValue_showNat)

lemma parseInt_showNat_exact: "n \<le> 2 ^ 53 \<Longrightarrow> parseInt (showNat n) = Finite (of_nat n)"
  using toDouble_exact[of "int n"] by (simp add: parseInt_showNat)


section \<open>What the store commands leave alone\<close>

lemma emit_frame:
  "now (emit e w) = now w" "node (emit e w) = node w" "provider (emit e w) = provider w"
  "redis (emit e w) = redis w" "faults (emit e w) = faults w" "trace (emit e w) = trace w @ [e]"
  by (simp_all add: emit_def)

lemma lookup_emit: "lookup (emit e w) k = lookup w k"
  by (simp add: lookup_def emit_frame)

lemma nextFault_frame:
  "now (snd (nextFault w)) = now w" "node (snd (nextFault w)) = node w"
  "provider (snd (nextFault w)) = provider w" "redis (snd (nextFault w)) = redis w"
  "trace (snd (nextFault w)) = trace w" "faults (snd (nextFault w)) = tl (faults w)"
  by (simp_all add: nextFault_def split: list.splits)

lemma nextFault_healthy: "faults w = [] \<Longrightarrow> nextFault w = (False, w)"
  by (simp add: nextFault_def)

lemma lookup_nextFault: "lookup (snd (nextFault w)) k = lookup w k"
  by (simp add: lookup_def nextFault_frame)

lemma clientGet_frame:
  "now (snd (clientGet k w)) = now w" "node (snd (clientGet k w)) = node w"
  "provider (snd (clientGet k w)) = provider w" "redis (snd (clientGet k w)) = redis w"
  "trace (snd (clientGet k w)) = trace w" "faults (snd (clientGet k w)) = tl (faults w)"
  by (simp_all add: clientGet_def nextFault_frame split_beta Let_def)

lemma clientTtl_frame:
  "now (snd (clientTtl k w)) = now w" "node (snd (clientTtl k w)) = node w"
  "provider (snd (clientTtl k w)) = provider w" "redis (snd (clientTtl k w)) = redis w"
  "trace (snd (clientTtl k w)) = trace w" "faults (snd (clientTtl k w)) = tl (faults w)"
  by (simp_all add: clientTtl_def nextFault_frame split_beta Let_def split: option.splits)

lemma clientSetex_frame:
  "now (snd (clientSetex k n v w)) = now w" "node (snd (clientSetex k n v w)) = node w"
  "provider (snd (clientSetex k n v w)) = provider w"
  "trace (snd (clientSetex k n v w)) = trace w" "faults (snd (clientSetex k n v w)) = tl (faults w)"
  "k' \<noteq> k \<Longrightarrow> redis (snd (clientSetex k n v w)) k' = redis w k'"
  by (simp_all add: clientSetex_def nextFault_frame split_beta Let_def)

lemma clientSet_frame:
  "now (snd (clientSet k v w)) = now w" "node (snd (clientSet k v w)) = node w"
  "provider (snd (clientSet k v w)) = provider w"
  "trace (snd (clientSet k v w)) = trace w" "faults (snd (clientSet k v w)) = tl (faults w)"
  "k' \<noteq> k \<Longrightarrow> redis (snd (clientSet k v w)) k' = redis w k'"
  by (simp_all add: clientSet_def nextFault_frame split_beta Let_def)

lemma clientIncr_frame:
  "now (snd (clientIncr k w)) = now w" "node (snd (clientIncr k w)) = node w"
  "provider (snd (clientIncr k w)) = provider w"
  "trace (snd (clientIncr k w)) = trace w" "faults (snd (clientIncr k w)) = tl (faults w)"
  "k' \<noteq> k \<Longrightarrow> redis (snd (clientIncr k w)) k' = redis w k'"
  by (simp_all add: clientIncr_def nextFault_frame split_beta Let_def split: option.splits redis_value.splits)

lemma checkRateLimit_unfold:
  "checkRateLimit key limit windowMs w0 =
     (let w = emit (CheckRateLimit key limit windowMs) w0;
          windowSeconds = windowMs div 1000
      in case clientGet key w of
           (Inl e, w1) \<Rightarrow> (failOpen limit windowMs w1, w1)
         | (Inr current, w1) \<Rightarrow>
             if falsy current then
               (case clientSetex key windowSeconds (Text ''1'') w1 of
                  (Inl e, w2) \<Rightarrow> (failOpen limit windowMs w2, w2)
                | (Inr u, w2) \<Rightarrow>
                    (\<lparr>allowed = True, remaining = toDouble (of_int limit - 1),
                      resetAt = now w2 + windowMs\<rparr>, w2))
             else
               (let count = parseCount current
                in if geNumber count limit then
                     (case clientTtl key w1 of
                        (Inl e, w2) \<Rightarrow> (failOpen limit windowMs w2, w2)
                      | (Inr ttl, w2) \<Rightarrow>
                          (\<lparr>allowed = False, remaining = Finite 0,
                            resetAt = now w2 + ttl * 1000\<rparr>, w2))
                   else
                     (case clientIncr key w1 of
                        (Inl e, w2) \<Rightarrow> (failOpen limit windowMs w2, w2)
                      | (Inr n, w2) \<Rightarrow>
                          (\<lparr>allowed = True,
                            remaining = subNumber (subNumber (Finite (of_int limit)) count)
                                          (Finite 1),
                            resetAt = now w2 + windowMs\<rparr>, w2))))"
  by (simp add: checkRateLimit_def checkRateLimitRead_def checkRateLimitFinish_def Let_def
        split: prod.splits sum.splits)

text \<open>The world after checkRateLimit is the world after the read, or after the one command that follows it.\<close>

lemma checkRateLimit_shape:
  "snd (checkRateLimit key limit W w) \<in>
     {snd (clientGet key (emit (CheckRateLimit key limit W) w)),
      snd (clientSetex key (W div 1000) (Text ''1'') (snd (clientGet key (emit (CheckRateLimit key limit W) w)))),
      snd (clientTtl key (snd (clientGet key (emit (CheckRateLimit key limit W) w)))),
      snd (clientIncr key (snd (clientGet key (emit (CheckRateLimit key limit W) w))))}"
  by (simp add: checkRateLimit_unfold Let_def split: prod.splits sum.splits)

lemmas client_frames = emit_frame clientGet_frame clientTtl_frame clientSetex_frame clientSet_frame clientIncr_frame

lemma checkRateLimit_frame:
  "now (snd (checkRateLimit key limit W w)) = now w"
  "node (snd (checkRateLimit key limit W w)) = node w"
  "provider (snd (checkRateLimit key limit W w)) = provider w"
  "trace (snd (checkRateLimit key limit W w)) = trace w @ [CheckRateLimit key limit W]"
  using checkRateLimit_shape[of key limit W w] by (auto simp: client_frames)

lemma checkRateLimit_faults:
  "faults w = [] \<Longrightarrow> faults (snd (checkRateLimit key limit W w)) = []"
  using checkRateLimit_shape[of key limit W w] by (auto simp: client_frames)

lemma checkRateLimit_other:
  "k \<noteq> key \<Longrightarrow> redis (snd (checkRateLimit key limit W w)) k = redis w k"
  using checkRateLimit_shape[of key limit W w] by (auto simp: client_frames)


section \<open>The rate limiter on a store that answers\<close>

lemma clientGet_healthy:
  "faults w = [] \<Longrightarrow> clientGet k w = (Inr (map_option fst (lookup w k)), w)"
  by (simp add: clientGet_def nextFault_healthy)

lemma checkRateLimit_fresh:
  assumes "faults w = []" "falsy (map_option fst (lookup w key))" "1000 \<le> W"
  shows "checkRateLimit key limit W w =
           (\<lparr>allowed = True, remaining = toDouble (of_int limit - 1), resetAt = now w + W\<rparr>,
            (emit (CheckRateLimit key limit W) w)
              \<lparr>redis := (redis w)(key \<mapsto> (Text ''1'', Some (now w + (W div 1000) * 1000)))\<rparr>)"
proof -
  let ?w = "emit (CheckRateLimit key limit W) w"
  have f: "faults ?w = []" using assms(1) by (simp add: emit_frame)
  have g: "clientGet key ?w = (Inr (map_option fst (lookup w key)), ?w)"
    using clientGet_healthy[OF f] by (simp add: lookup_emit)
  have pos: "\<not> W div 1000 \<le> 0" using assms(3) by simp
  have s: "clientSetex key (W div 1000) (Text ''1'') ?w =
             (Inr (), ?w\<lparr>redis := (redis w)(key \<mapsto> (Text ''1'', Some (now w + (W div 1000) * 1000)))\<rparr>)"
    using pos by (simp add: clientSetex_def nextFault_healthy[OF f] emit_frame)
  show ?thesis
    unfolding checkRateLimit_unfold Let_def g using assms(2) by (simp add: s emit_frame)
qed

lemma checkRateLimit_denied:
  assumes "faults w = []" "lookup w key = Some (Text s, e)" "s \<noteq> []"
    and "geNumber (parseInt s) limit"
  shows "checkRateLimit key limit W w =
           (\<lparr>allowed = False, remaining = Finite 0,
             resetAt = now w + (case e of None \<Rightarrow> - 1 | Some t \<Rightarrow> (t - now w + 500) div 1000) * 1000\<rparr>,
            emit (CheckRateLimit key limit W) w)"
proof -
  let ?w = "emit (CheckRateLimit key limit W) w"
  have f: "faults ?w = []" using assms(1) by (simp add: emit_frame)
  have g: "clientGet key ?w = (Inr (Some (Text s)), ?w)"
    using clientGet_healthy[OF f] assms(2) by (simp add: lookup_emit)
  have nf: "\<not> falsy (Some (Text s))" using assms(3) by (simp add: falsy_def)
  have ge: "geNumber (parseCount (Some (Text s))) limit"
    using assms(4) by (simp add: parseCount_def)
  have t: "clientTtl key ?w = (Inr (case e of None \<Rightarrow> - 1 | Some t \<Rightarrow> (t - now w + 500) div 1000), ?w)"
    using assms(2) by (simp add: clientTtl_def nextFault_healthy[OF f] lookup_emit emit_frame split: option.splits)
  show ?thesis
    unfolding checkRateLimit_unfold Let_def g using nf ge by (simp add: t emit_frame)
qed

lemma checkRateLimit_counting:
  assumes "faults w = []" "lookup w key = Some (Text (showNat k), e)" "0 < k"
    and "\<not> geNumber (parseInt (showNat k)) limit" "int k < 2 ^ 63 - 1"
  shows "checkRateLimit key limit W w =
           (\<lparr>allowed = True,
             remaining = subNumber (subNumber (Finite (of_int limit)) (parseInt (showNat k)))
                           (Finite 1),
             resetAt = now w + W\<rparr>,
            (emit (CheckRateLimit key limit W) w)
              \<lparr>redis := (redis w)(key \<mapsto> (Text (showNat (Suc k)), e))\<rparr>)"
proof -
  let ?w = "emit (CheckRateLimit key limit W) w"
  have f: "faults ?w = []" using assms(1) by (simp add: emit_frame)
  have g: "clientGet key ?w = (Inr (Some (Text (showNat k))), ?w)"
    using clientGet_healthy[OF f] assms(2) by (simp add: lookup_emit)
  have nf: "\<not> falsy (Some (Text (showNat k)))" by (simp add: falsy_def showNat_not_Nil)
  have pc: "parseCount (Some (Text (showNat k))) = parseInt (showNat k)"
    by (simp add: parseCount_def)
  have ll: "string2ll (showNat k) = Some (int k)"
    using string2ll_showNat[of k] assms(3,5) by simp
  have sh: "showInt (int k + 1) = showNat (Suc k)"
    by (simp add: showInt_def nat_add_distrib)
  have i: "clientIncr key ?w =
             (Inr (int k + 1), ?w\<lparr>redis := (redis w)(key \<mapsto> (Text (showNat (Suc k)), e))\<rparr>)"
    using assms(2,5) by (simp add: clientIncr_def nextFault_healthy[OF f] lookup_emit ll sh emit_frame)
  show ?thesis
    unfolding checkRateLimit_unfold Let_def g using nf assms(4) by (simp add: pc i emit_frame)
qed

text \<open>Below \<open>2^53\<close> a count is read as it is stored.\<close>

lemma geNumber_exact:
  assumes "k \<le> 2 ^ 53"
  shows "geNumber (parseInt (showNat k)) limit \<longleftrightarrow> limit \<le> int k"
proof -
  have "(of_int limit \<le> (of_int (int k) :: rat)) = (limit \<le> int k)" by (rule of_int_le_iff)
  then show ?thesis by (simp add: parseInt_showNat_exact[OF assms] geNumber_def)
qed


section \<open>Sequential calls within one window\<close>

lemma tick_frame:
  "now (tick d w) = now w + d" "node (tick d w) = node w" "provider (tick d w) = provider w"
  "redis (tick d w) = redis w" "faults (tick d w) = faults w" "trace (tick d w) = trace w"
  by (simp_all add: tick_def)

lemma sum_list_nonneg_int: "\<forall>d\<in>set ds. (0::int) \<le> d \<Longrightarrow> 0 \<le> sum_list ds"
  by (induction ds) auto

lemma calls_Cons:
  "calls key limit W (d # ds) w =
     (fst (checkRateLimit key limit W (tick d w)) #
        fst (calls key limit W ds (snd (checkRateLimit key limit W (tick d w)))),
      snd (calls key limit W ds (snd (checkRateLimit key limit W (tick d w)))))"
  by (simp add: split_beta Let_def)

lemma calls_frame:
  "now (snd (calls key limit W ds w)) = now w + sum_list ds"
  "faults w = [] \<Longrightarrow> faults (snd (calls key limit W ds w)) = []"
proof -
  show "now (snd (calls key limit W ds w)) = now w + sum_list ds"
  proof (induction ds arbitrary: w)
    case Nil
    show ?case by simp
  next
    case (Cons d ds)
    show ?case unfolding calls_Cons snd_conv Cons.IH
      by (simp add: checkRateLimit_frame tick_frame)
  qed
  show "faults w = [] \<Longrightarrow> faults (snd (calls key limit W ds w)) = []"
  proof (induction ds arbitrary: w)
    case Nil
    then show ?case by simp
  next
    case (Cons d ds)
    have "faults (snd (checkRateLimit key limit W (tick d w))) = []"
      using Cons.prems by (intro checkRateLimit_faults) (simp add: tick_frame)
    then show ?case unfolding calls_Cons snd_conv by (rule Cons.IH)
  qed
qed

lemma two53_small: "(2::int) ^ 53 < 2 ^ 63 - 1"
  by simp

lemma calls_window:
  assumes "faults w = []" "redis w key = Some (Text (showNat k), Some E)" "0 < k" "k \<le> n"
    and "n \<le> 2 ^ 53" "\<forall>d\<in>set ds. 0 \<le> d" "now w + sum_list ds \<le> E"
  shows "map allowed (fst (calls key (int n) W ds w)) =
           replicate (min (length ds) (n - k)) True @ replicate (length ds - (n - k)) False
         \<and> redis (snd (calls key (int n) W ds w)) key =
             Some (Text (showNat (min (k + length ds) n)), Some E)"
  using assms
proof (induction ds arbitrary: w k)
  case Nil
  then show ?case by simp
next
  case (Cons d ds)
  let ?w1 = "tick d w"
  let ?ev = "CheckRateLimit key (int n) W"
  have d0: "0 \<le> d" and ds0: "\<forall>x\<in>set ds. 0 \<le> x" using Cons.prems(6) by simp_all
  have s0: "0 \<le> sum_list ds" using ds0 by (rule sum_list_nonneg_int)
  have f1: "faults ?w1 = []" using Cons.prems(1) by (simp add: tick_frame)
  have lt: "now ?w1 \<le> E" using Cons.prems(7) s0 by (simp add: tick_frame)
  have lk: "lookup ?w1 key = Some (Text (showNat k), Some E)"
    using Cons.prems(2) lt by (simp add: lookup_def live_def tick_frame)
  have k53: "k \<le> 2 ^ 53" using Cons.prems(4,5) by linarith
  show ?case
  proof (cases "k < n")
    case True
    have "int k \<le> 2 ^ 53" using k53 by simp
    then have b: "int k < 2 ^ 63 - 1" using two53_small by linarith
    have ng: "\<not> geNumber (parseInt (showNat k)) (int n)"
      using True by (simp add: geNumber_exact[OF k53])
    note c = checkRateLimit_counting[OF f1 lk Cons.prems(3) ng b, of W]
    let ?w2 = "(emit ?ev ?w1)\<lparr>redis := (redis ?w1)(key \<mapsto> (Text (showNat (Suc k)), Some E))\<rparr>"
    have ih: "map allowed (fst (calls key (int n) W ds ?w2)) =
           replicate (min (length ds) (n - Suc k)) True @ replicate (length ds - (n - Suc k)) False
         \<and> redis (snd (calls key (int n) W ds ?w2)) key =
             Some (Text (showNat (min (Suc k + length ds) n)), Some E)"
      using True Cons.prems(5,7) ds0 f1
      by (intro Cons.IH) (simp_all add: emit_frame tick_frame)
    obtain m where m: "n - k = Suc m" "n - Suc k = m" using True by (metis Suc_diff_Suc)
    show ?thesis
      unfolding calls_Cons c using ih m by (simp add: emit_frame tick_frame)
  next
    case False
    then have kn: "k = n" using Cons.prems(4) by simp
    have ge: "geNumber (parseInt (showNat k)) (int n)"
      using geNumber_exact[OF k53, of "int n"] kn by simp
    note c = checkRateLimit_denied[OF f1 lk showNat_not_Nil ge, of W]
    let ?w2 = "emit ?ev ?w1"
    have ih: "map allowed (fst (calls key (int n) W ds ?w2)) =
           replicate (min (length ds) (n - k)) True @ replicate (length ds - (n - k)) False
         \<and> redis (snd (calls key (int n) W ds ?w2)) key =
             Some (Text (showNat (min (k + length ds) n)), Some E)"
      using Cons.prems ds0 f1
      by (intro Cons.IH) (simp_all add: emit_frame tick_frame)
    show ?thesis
      unfolding calls_Cons c using ih kn by (simp add: emit_frame tick_frame)
  qed
qed

lemma calls_denied:
  assumes "faults w = []" "redis w key = Some (Text s, e)" "s \<noteq> []"
    and "geNumber (parseInt s) limit" "\<forall>d\<in>set ds. 0 \<le> d"
    and "case e of None \<Rightarrow> True | Some t \<Rightarrow> now w + sum_list ds \<le> t"
  shows "list_all (\<lambda>r. \<not> allowed r) (fst (calls key limit W ds w))
         \<and> redis (snd (calls key limit W ds w)) = redis w"
  using assms
proof (induction ds arbitrary: w)
  case Nil
  then show ?case by simp
next
  case (Cons d ds)
  let ?w1 = "tick d w"
  let ?ev = "CheckRateLimit key limit W"
  have d0: "0 \<le> d" and ds0: "\<forall>x\<in>set ds. 0 \<le> x" using Cons.prems(5) by simp_all
  have s0: "0 \<le> sum_list ds" using ds0 by (rule sum_list_nonneg_int)
  have f1: "faults ?w1 = []" using Cons.prems(1) by (simp add: tick_frame)
  have lk: "lookup ?w1 key = Some (Text s, e)"
    using Cons.prems(2,6) s0 by (cases e) (simp_all add: lookup_def live_def tick_frame)
  note c = checkRateLimit_denied[OF f1 lk Cons.prems(3,4), of W]
  let ?w2 = "emit ?ev ?w1"
  have e2: "case e of None \<Rightarrow> True | Some t \<Rightarrow> now ?w2 + sum_list ds \<le> t"
    using Cons.prems(6) by (cases e) (simp_all add: emit_frame tick_frame)
  have ih: "list_all (\<lambda>r. \<not> allowed r) (fst (calls key limit W ds ?w2))
         \<and> redis (snd (calls key limit W ds ?w2)) = redis ?w2"
    using Cons.prems(1,2,3,4) ds0 e2
    by (intro Cons.IH) (simp_all add: emit_frame tick_frame)
  show ?case
    unfolding calls_Cons c using ih by (simp add: emit_frame tick_frame)
qed

text \<open>
  The largest count the store can hold reads as \<open>2^63\<close>, so a counter under a limit of at
  most \<open>2^63\<close> is refused before the store would refuse to increment it.
\<close>

lemma toDouble_max_count: "toDouble 9223372036854775807 = Finite 9223372036854775808"
  by (simp add: double_eval)

lemma geNumber_max_count:
  assumes "limit \<le> 2 ^ 63" "int k = 2 ^ 63 - 1"
  shows "geNumber (parseInt (showNat k)) limit"
proof -
  have "(of_int (int k) :: rat) = 9223372036854775807" using assms(2) by simp
  then have "parseInt (showNat k) = Finite 9223372036854775808"
    by (simp only: parseInt_showNat toDouble_max_count)
  moreover have "(of_int limit :: rat) \<le> of_int (2 ^ 63)"
    using assms(1) by (simp only: of_int_le_iff)
  ultimately show ?thesis by (simp add: geNumber_def)
qed

text \<open>
  Sequential calls on a counter within its window: the count goes up by one with every
  call until a call reads a count that has reached the limit; from then on it stays.
\<close>

lemma calls_capped:
  assumes "faults w = []" "redis w key = Some (Text (showNat k), Some E)" "0 < k"
    and "int k \<le> 2 ^ 63 - 1" "limit \<le> 2 ^ 63" "\<forall>d\<in>set ds. 0 \<le> d"
    and "now w + sum_list ds \<le> E"
  shows "\<exists>k'. redis (snd (calls key limit W ds w)) key = Some (Text (showNat k'), Some E)
              \<and> 0 < k' \<and> (k' = k + length ds \<or> geNumber (parseInt (showNat k')) limit)"
  using assms
proof (induction ds arbitrary: w k)
  case Nil
  from Nil.prems(2,3) show ?case by (auto intro!: exI[of _ k])
next
  case (Cons d ds)
  let ?w1 = "tick d w"
  let ?ev = "CheckRateLimit key limit W"
  have d0: "0 \<le> d" and ds0: "\<forall>x\<in>set ds. 0 \<le> x" using Cons.prems(6) by simp_all
  have s0: "0 \<le> sum_list ds" using ds0 by (rule sum_list_nonneg_int)
  have f1: "faults ?w1 = []" using Cons.prems(1) by (simp add: tick_frame)
  have lt: "now ?w1 \<le> E" using Cons.prems(7) s0 by (simp add: tick_frame)
  have lk: "lookup ?w1 key = Some (Text (showNat k), Some E)"
    using Cons.prems(2) lt by (simp add: lookup_def live_def tick_frame)
  show ?case
  proof (cases "geNumber (parseInt (showNat k)) limit")
    case True
    have "redis (snd (calls key limit W (d # ds) w)) = redis w"
      using calls_denied[OF Cons.prems(1,2) showNat_not_Nil True Cons.prems(6), of W]
        Cons.prems(7) by simp
    with Cons.prems(2,3) True show ?thesis by (auto intro!: exI[of _ k])
  next
    case False
    have "int k \<noteq> 2 ^ 63 - 1"
      using False geNumber_max_count[OF Cons.prems(5), of k] by blast
    with Cons.prems(4) have b: "int k < 2 ^ 63 - 1" by linarith
    note c = checkRateLimit_counting[OF f1 lk Cons.prems(3) False b, of W]
    let ?w2 = "(emit ?ev ?w1)\<lparr>redis := (redis ?w1)(key \<mapsto> (Text (showNat (Suc k)), Some E))\<rparr>"
    have "\<exists>k'. redis (snd (calls key limit W ds ?w2)) key = Some (Text (showNat k'), Some E)
              \<and> 0 < k' \<and> (k' = Suc k + length ds \<or> geNumber (parseInt (showNat k')) limit)"
      using b Cons.prems(5,7) ds0 f1
      by (intro Cons.IH) (simp_all add: emit_frame tick_frame)
    then show ?thesis
      unfolding calls_Cons c by (simp add: emit_frame tick_frame)
  qed
qed


section \<open>Further facts about counters\<close>

lemma showNat_1: "showNat (Suc 0) = ''1''"
  by (subst showNat.simps) (simp add: digitChar_def decimalDigits_def)

lemma parseIntValue_1: "parseIntValue ''1'' = Some 1"
  using parseIntValue_showNat[of "Suc 0"] by (simp add: showNat_1)

lemma parseInt_1: "parseInt ''1'' = Finite 1"
  using toDouble_exact[of 1] by (simp add: parseInt_def parseIntValue_1)

lemma tick_0: "tick 0 w = w"
  by (simp add: tick_def)

lemma calls_append:
  "calls key limit W (xs @ ys) w =
     (fst (calls key limit W xs w) @ fst (calls key limit W ys (snd (calls key limit W xs w))),
      snd (calls key limit W ys (snd (calls key limit W xs w))))"
  by (induction xs arbitrary: w) (simp_all add: split_beta Let_def)

lemma calls_length: "length (fst (calls key limit W ds w)) = length ds"
  by (induction ds arbitrary: w) (simp_all add: split_beta Let_def)

lemma clientTtl_healthy: "faults w = [] \<Longrightarrow> \<exists>t. clientTtl k w = (Inr t, w)"
  by (simp add: clientTtl_def nextFault_healthy split: option.splits prod.splits)

lemma storedCount_SomeD:
  assumes "storedCount w key = Some c"
  shows "\<exists>s. lookup w key = Some (Text s, expiryOf w key) \<and> redis w key = Some (Text s, expiryOf w key)
             \<and> s \<noteq> [] \<and> parseIntValue s = Some c"
proof -
  obtain v e where l: "lookup w key = Some (v, e)"
    using assms by (cases "lookup w key") (auto simp: storedCount_def)
  then have r: "redis w key = Some (v, e)"
    by (auto simp: lookup_def live_def split: option.splits if_splits)
  obtain s where v: "v = Text s" and p: "parseIntValue s = Some c"
    using assms l by (cases v) (auto simp: storedCount_def)
  have "s \<noteq> []" using p by (auto simp: parseIntValue_def)
  with l r v p show ?thesis by (simp add: expiryOf_def)
qed

text \<open>A count that has reached the limit reads as a number that has reached it.\<close>

lemma geNumber_reached:
  assumes "1 \<le> limit" "isNumber limit" "parseIntValue s = Some c" "limit \<le> c"
  shows "geNumber (parseInt s) limit"
  using toDouble_reaches[OF assms(1,4,2)] assms(3) by (simp add: parseInt_def)

lemma allowed_count_bounded:
  assumes "faults w = []" "1 \<le> limit" "isNumber limit"
    and "allowed (fst (checkRateLimit key limit W w))"
  shows "case storedCount (snd (checkRateLimit key limit W w)) key of None \<Rightarrow> True | Some c \<Rightarrow> c \<le> limit"
proof -
  let ?ev = "CheckRateLimit key limit W"
  let ?w = "emit ?ev w"
  let ?cur = "map_option fst (lookup w key)"
  have f: "faults ?w = []" using assms(1) by (simp add: emit_frame)
  have g: "clientGet key ?w = (Inr ?cur, ?w)"
    using clientGet_healthy[OF f] by (simp add: lookup_emit)
  have sc: "storedCount ?w key = storedCount w key"
    by (simp add: storedCount_def lookup_emit)
  show ?thesis
  proof (cases "falsy ?cur")
    case True
    then have pc: "storedCount w key = None"
      by (auto simp: falsy_def storedCount_def parseIntValue_def)
    show ?thesis
    proof (cases "W div 1000 \<le> 0")
      case w0: True
      have "clientSetex key (W div 1000) (Text ''1'') ?w = (Inl RedisError, ?w)"
        using w0 by (simp add: clientSetex_def nextFault_healthy[OF f])
      then have "snd (checkRateLimit key limit W w) = ?w"
        unfolding checkRateLimit_unfold Let_def g using True by simp
      then show ?thesis using sc pc by simp
    next
      case False
      then have W: "1000 \<le> W" by simp
      have "snd (checkRateLimit key limit W w) =
              ?w\<lparr>redis := (redis w)(key \<mapsto> (Text ''1'', Some (now w + (W div 1000) * 1000)))\<rparr>"
        using checkRateLimit_fresh[OF assms(1) True W, of limit] by simp
      then have "storedCount (snd (checkRateLimit key limit W w)) key = Some 1"
        using W by (simp add: storedCount_def lookup_def live_def parseIntValue_1 emit_frame)
      then show ?thesis using assms(2) by simp
    qed
  next
    case nf: False
    show ?thesis
    proof (cases "geNumber (parseCount ?cur) limit")
      case True
      obtain t where t: "clientTtl key ?w = (Inr t, ?w)"
        using clientTtl_healthy[OF f] by blast
      have "\<not> allowed (fst (checkRateLimit key limit W w))"
        unfolding checkRateLimit_unfold Let_def g using nf True by (simp add: t)
      with assms(4) show ?thesis by simp
    next
      case ng: False
      have below: "case storedCount w key of None \<Rightarrow> True | Some c \<Rightarrow> c < limit"
      proof (cases "storedCount w key")
        case None
        then show ?thesis by simp
      next
        case (Some c)
        obtain s where s: "lookup w key = Some (Text s, expiryOf w key)" "parseIntValue s = Some c"
          using storedCount_SomeD[OF Some] by blast
        have "\<not> limit \<le> c"
        proof
          assume "limit \<le> c"
          then have "geNumber (parseInt s) limit"
            by (rule geNumber_reached[OF assms(2,3) s(2)])
          with ng s(1) show False by (simp add: parseCount_def)
        qed
        with Some show ?thesis by simp
      qed
      then have small: "case storedCount w key of None \<Rightarrow> True | Some c \<Rightarrow> c \<le> limit"
        by (cases "storedCount w key") auto
      have shape: "snd (checkRateLimit key limit W w) = snd (clientIncr key ?w)"
        unfolding checkRateLimit_unfold Let_def g using nf ng by (simp split: prod.splits sum.splits)
      obtain v e where l: "lookup w key = Some (v, e)"
        using nf by (cases "lookup w key") (auto simp: falsy_def)
      show ?thesis
      proof (cases v)
        case (Json d)
        have "snd (clientIncr key ?w) = ?w"
          using l Json by (simp add: clientIncr_def nextFault_healthy[OF f] lookup_emit)
        then show ?thesis using shape sc small by simp
      next
        case (Text s)
        show ?thesis
        proof (cases "string2ll s")
          case None
          have "snd (clientIncr key ?w) = ?w"
            using l Text None by (simp add: clientIncr_def nextFault_healthy[OF f] lookup_emit)
          then show ?thesis using shape sc small by simp
        next
          case (Some x)
          have px: "parseIntValue s = Some x" using Some by (rule string2ll_parseIntValue)
          have xl: "x < limit" using below l Text px by (simp add: storedCount_def)
          show ?thesis
          proof (cases "x = 2 ^ 63 - 1")
            case True
            have "snd (clientIncr key ?w) = ?w"
              using l Text Some True by (simp add: clientIncr_def nextFault_healthy[OF f] lookup_emit)
            then show ?thesis using shape sc small by simp
          next
            case False
            have r: "redis w key = Some (Text s, e)"
              using l Text by (auto simp: lookup_def live_def split: option.splits if_splits)
            have i: "snd (clientIncr key ?w) = ?w\<lparr>redis := (redis w)(key \<mapsto> (Text (showInt (x + 1)), e))\<rparr>"
              using l Text Some False by (simp add: clientIncr_def nextFault_healthy[OF f] lookup_emit emit_frame)
            have "lookup (?w\<lparr>redis := (redis w)(key \<mapsto> (Text (showInt (x + 1)), e))\<rparr>) key = Some (Text (showInt (x + 1)), e)"
              using l r by (auto simp: lookup_def live_def emit_frame split: option.splits if_splits)
            then have "storedCount (snd (checkRateLimit key limit W w)) key = Some (x + 1)"
              using shape i by (simp add: storedCount_def parseIntValue_showInt)
            then show ?thesis using xl by simp
          qed
        qed
      qed
    qed
  qed
qed

lemma denied_until_expiry:
  assumes "faults w = []" "1 \<le> limit" "isNumber limit" "storedCount w key = Some c"
    and "limit \<le> c" "\<forall>d\<in>set ds. 0 \<le> d"
    and "case expiryOf w key of None \<Rightarrow> True | Some t \<Rightarrow> now w + sum_list ds \<le> t"
  shows "list_all (\<lambda>r. \<not> allowed r) (fst (calls key limit W ds w))"
proof -
  obtain s where s: "redis w key = Some (Text s, expiryOf w key)" "s \<noteq> []" "parseIntValue s = Some c"
    using storedCount_SomeD[OF assms(4)] by blast
  have ge: "geNumber (parseInt s) limit"
    by (rule geNumber_reached[OF assms(2,3) s(3) assms(5)])
  show ?thesis
    using calls_denied[OF assms(1) s(1,2) ge assms(6,7)] by simp
qed


section \<open>Calls made by each service\<close>

lemma madeCalls_iff:
  "madeCalls w w' cs \<longleftrightarrow> (\<exists>evs. trace w' = trace w @ evs \<and> filter isCall evs = cs)"
proof
  assume "madeCalls w w' cs"
  then have "trace w' = trace w @ newEvents w w'" "filter isCall (newEvents w w') = cs"
    by (auto simp: madeCalls_def newEvents_def) (metis append_take_drop_id)
  then show "\<exists>evs. trace w' = trace w @ evs \<and> filter isCall evs = cs" by blast
next
  assume "\<exists>evs. trace w' = trace w @ evs \<and> filter isCall evs = cs"
  then show "madeCalls w w' cs" by (auto simp: madeCalls_def newEvents_def)
qed


lemma madeCalls_trans:
  "madeCalls w w1 cs1 \<Longrightarrow> madeCalls w1 w2 cs2 \<Longrightarrow> madeCalls w w2 (cs1 @ cs2)"
  by (auto simp: madeCalls_iff)

lemma newEvents_trans:
  "madeCalls w w1 cs1 \<Longrightarrow> madeCalls w1 w2 cs2 \<Longrightarrow> newEvents w w2 = newEvents w w1 @ newEvents w1 w2"
  by (auto simp: madeCalls_iff newEvents_def)

lemma verify_world:
  "snd (verify cfg t ip w) = w\<lparr>trace := trace w @ Verify t ip # verifyPosts cfg t ip\<rparr>"
  by (simp add: verify_def verifyPosts_def emit_def Let_def
        split: option.splits post_outcome.splits sum.splits)

lemma verify_frame:
  "now (snd (verify cfg t ip w)) = now w" "node (snd (verify cfg t ip w)) = node w"
  "provider (snd (verify cfg t ip w)) = provider w" "redis (snd (verify cfg t ip w)) = redis w"
  "faults (snd (verify cfg t ip w)) = faults w"
  by (simp_all add: verify_world)

lemma verifyPosts_not_calls: "filter isCall (verifyPosts cfg t ip) = []"
  by (simp add: verifyPosts_def isCall_def split: option.splits)

lemma verify_calls: "madeCalls w (snd (verify cfg t ip w)) [Verify t ip]"
  by (simp add: madeCalls_iff verify_world isCall_def verifyPosts_not_calls)

lemma verify_newEvents:
  "newEvents w (snd (verify cfg t ip w)) = Verify t ip # verifyPosts cfg t ip"
  by (simp add: newEvents_def verify_world)

lemma checkRateLimit_calls:
  "madeCalls w (snd (checkRateLimit key limit W w)) [CheckRateLimit key limit W]"
  by (simp add: madeCalls_iff checkRateLimit_frame isCall_def)

lemma checkRateLimit_newEvents:
  "newEvents w (snd (checkRateLimit key limit W w)) = [CheckRateLimit key limit W]"
  by (simp add: newEvents_def checkRateLimit_frame)

lemma getBalance_world: "snd (getBalance w) = emit GetBalance w"
  by (simp add: getBalance_def Let_def split: option.splits)


lemma getBalance_node: "node w = node w' \<Longrightarrow> fst (getBalance w) = fst (getBalance w')"
  by (simp add: getBalance_def Let_def emit_def split: option.splits)

lemma getBalance_calls: "madeCalls w (snd (getBalance w)) [GetBalance]"
  by (simp add: getBalance_world madeCalls_iff emit_frame isCall_def)

lemma getGasPrice_emit: "getGasPrice cfg (emit e w) = getGasPrice cfg w"
  by (simp add: getGasPrice_def emit_frame)

lemma sendTokens_world:
  "snd (sendTokens cfg a i w) = w\<lparr>trace := trace w @ SendTokens a i # sendSubmits cfg a w\<rparr>"
  by (simp add: sendTokens_def sendSubmits_def getGasPrice_emit emit_frame Let_def
        split: option.splits sum.splits receipt_outcome.splits)

lemma sendTokens_frame:
  "now (snd (sendTokens cfg a i w)) = now w" "node (snd (sendTokens cfg a i w)) = node w"
  "provider (snd (sendTokens cfg a i w)) = provider w" "redis (snd (sendTokens cfg a i w)) = redis w"
  "faults (snd (sendTokens cfg a i w)) = faults w"
  by (simp_all add: sendTokens_world)

lemma sendSubmits_not_calls: "filter isCall (sendSubmits cfg a w) = []"
  by (simp add: sendSubmits_def isCall_def split: option.splits sum.splits)

lemma sendTokens_calls: "madeCalls w (snd (sendTokens cfg a i w)) [SendTokens a i]"
  by (simp add: madeCalls_iff sendTokens_world isCall_def sendSubmits_not_calls)

lemma sendTokens_newEvents:
  "newEvents w (snd (sendTokens cfg a i w)) = SendTokens a i # sendSubmits cfg a w"
  by (simp add: newEvents_def sendTokens_world)



lemma snd_redisGet: "snd (redisGet k w) = snd (clientGet k w)"
  by (cases "clientGet k w") (auto simp: redisGet_def split: sum.splits)

lemma snd_redisSet: "snd (redisSet k v w) = snd (clientSet k v w)"
  by (cases "clientSet k v w") (auto simp: redisSet_def split: sum.splits)

lemma snd_redisSetex: "snd (redisSetex k n v w) = snd (clientSetex k n v w)"
  by (cases "clientSetex k n v w") (auto simp: redisSetex_def split: sum.splits)

lemmas redis_frames = snd_redisGet snd_redisSet snd_redisSetex client_frames

lemma updateStats_unfold:
  "updateStats cfg a h w0 =
     (let w = emit (UpdateStats a h) w0;
          (statsData, w1) = redisGet ''stats'' w
      in case (if falsy statsData then Inr defaultStats
               else (case statsData of None \<Rightarrow> Inr defaultStats | Some v \<Rightarrow> parseStats v)) of
           Inl e \<Rightarrow> w1
         | Inr st \<Rightarrow>
             (let st1 = st\<lparr>totalRequests := increment (totalRequests st),
                           successfulRequests := increment (successfulRequests st),
                           totalDistributed :=
                             addNumber (totalDistributed st) (Finite (faucetAmount cfg)),
                           lastRequest := Some (now w1)\<rparr>;
                  (ok1, w2) = redisSet ''stats'' (Json (StatsDoc st1)) w1;
                  (ok2, w3) = redisSetex (''request:'' @ h) (86400 * 7)
                                (Json (RequestDoc \<lparr>recAddress = a, recTxHash = h,
                                                  recAmount = faucetAmount cfg,
                                                  recTimestamp = now w2\<rparr>)) w2
              in w3))"
  by (simp add: updateStats_def updateStatsRead_def updateStatsWrite_def Let_def split_beta)

lemma updateStats_shape:
  "updateStats cfg a h w = snd (redisGet ''stats'' (emit (UpdateStats a h) w))
   \<or> (\<exists>d1 d2. updateStats cfg a h w =
         snd (redisSetex (''request:'' @ h) (86400 * 7) d2
               (snd (redisSet ''stats'' d1 (snd (redisGet ''stats'' (emit (UpdateStats a h) w)))))))"
  by (simp add: updateStats_unfold Let_def split_beta split: sum.splits) blast

lemma updateStats_frame:
  "now (updateStats cfg a h w) = now w" "node (updateStats cfg a h w) = node w"
  "provider (updateStats cfg a h w) = provider w"
  "trace (updateStats cfg a h w) = trace w @ [UpdateStats a h]"
  using updateStats_shape[of cfg a h w]
  by (auto simp: redis_frames)

lemma updateStats_other:
  "k \<noteq> ''stats'' \<Longrightarrow> k \<noteq> ''request:'' @ h \<Longrightarrow> redis (updateStats cfg a h w) k = redis w k"
  using updateStats_shape[of cfg a h w]
  by (auto simp: redis_frames)

lemma updateStats_calls: "madeCalls w (updateStats cfg a h w) [UpdateStats a h]"
  by (simp add: madeCalls_iff updateStats_frame isCall_def)

lemma updateStats_newEvents: "newEvents w (updateStats cfg a h w) = [UpdateStats a h]"
  by (simp add: newEvents_def updateStats_frame)

section \<open>The request pipeline, step by step\<close>

lemma processRequest_eq:
  "processRequest cfg r w =
     (if \<not> isValidAddress (address r) then (Inl InvalidAddress, w)
      else if \<not> truthy (success (fst (verify cfg (Some (captchaToken r)) (Some (ipAddress r)) w)))
        then (Inl CaptchaFailed, afterVerify cfg r w)
      else if \<not> allowed (fst (checkIPRateLimit cfg (ipAddress r) (afterVerify cfg r w)))
        then (Inl (IpRateLimit (ceilDiv
                (resetAt (fst (checkIPRateLimit cfg (ipAddress r) (afterVerify cfg r w)))
                   - now (afterIp cfg r w)) 60000)), afterIp cfg r w)
      else if \<not> allowed (fst (checkAddressRateLimit cfg (address r) (afterIp cfg r w)))
        then (Inl (AddressRateLimit (ceilDiv
                (resetAt (fst (checkAddressRateLimit cfg (address r) (afterIp cfg r w)))
                   - now (afterAddress cfg r w)) 3600000)), afterAddress cfg r w)
      else
        (case fst (getBalance (afterAddress cfg r w)) of
           Inl e \<Rightarrow> (Inl e, afterBalance cfg r w)
         | Inr balance \<Rightarrow>
             if ltNumber (parseFloat balance) (mulNumber (faucetAmount cfg) 2)
             then (Inl BalanceTooLow, afterBalance cfg r w)
             else
               (case fst (sendTokens cfg (address r) (requestId r) (afterBalance cfg r w)) of
                  Inl e \<Rightarrow> (Inl e, afterSend cfg r w)
                | Inr txResult \<Rightarrow>
                    (Inr \<lparr>txHash = hash txResult, responseAddress = txTo txResult,
                          amount = txAmount txResult,
                          timestamp = now (updateStats cfg (address r) (hash txResult)
                                             (afterSend cfg r w))\<rparr>,
                     updateStats cfg (address r) (hash txResult) (afterSend cfg r w)))))"
  by (simp add: processRequest_def afterVerify_def afterIp_def afterAddress_def afterBalance_def
        afterSend_def Let_def split_beta split: sum.splits prod.splits)


lemma stage_calls:
  "madeCalls w (afterVerify cfg r w) (take 1 (pipeline cfg r h))"
  "madeCalls w (afterIp cfg r w) (take 2 (pipeline cfg r h))"
  "madeCalls w (afterAddress cfg r w) (take 3 (pipeline cfg r h))"
  "madeCalls w (afterBalance cfg r w) (take 4 (pipeline cfg r h))"
  "madeCalls w (afterSend cfg r w) (take 5 (pipeline cfg r h))"
  "madeCalls w (updateStats cfg (address r) h (afterSend cfg r w)) (pipeline cfg r h)"
proof -
  let ?p = "pipeline cfg r h"
  have 1: "madeCalls w (afterVerify cfg r w) [?p ! 0]"
    unfolding afterVerify_def by (simp add: pipeline_def verify_calls)
  have 2: "madeCalls w (afterIp cfg r w) ([?p ! 0] @ [?p ! 1])"
    unfolding afterIp_def checkIPRateLimit_def
    by (rule madeCalls_trans[OF 1]) (simp add: pipeline_def checkRateLimit_calls)
  have 3: "madeCalls w (afterAddress cfg r w) (([?p ! 0] @ [?p ! 1]) @ [?p ! 2])"
    unfolding afterAddress_def checkAddressRateLimit_def
    by (rule madeCalls_trans[OF 2]) (simp add: pipeline_def checkRateLimit_calls)
  have 4: "madeCalls w (afterBalance cfg r w) ((([?p ! 0] @ [?p ! 1]) @ [?p ! 2]) @ [?p ! 3])"
    unfolding afterBalance_def
    by (rule madeCalls_trans[OF 3]) (simp add: pipeline_def getBalance_calls)
  have 5: "madeCalls w (afterSend cfg r w)
             (((([?p ! 0] @ [?p ! 1]) @ [?p ! 2]) @ [?p ! 3]) @ [?p ! 4])"
    unfolding afterSend_def
    by (rule madeCalls_trans[OF 4]) (simp add: pipeline_def sendTokens_calls)
  have 6: "madeCalls w (updateStats cfg (address r) h (afterSend cfg r w))
             ((((([?p ! 0] @ [?p ! 1]) @ [?p ! 2]) @ [?p ! 3]) @ [?p ! 4]) @ [?p ! 5])"
    by (rule madeCalls_trans[OF 5]) (simp add: pipeline_def updateStats_calls)
  show "madeCalls w (afterVerify cfg r w) (take 1 ?p)" using 1 by (simp add: pipeline_def)
  show "madeCalls w (afterIp cfg r w) (take 2 ?p)" using 2 by (simp add: pipeline_def)
  show "madeCalls w (afterAddress cfg r w) (take 3 ?p)" using 3 by (simp add: pipeline_def)
  show "madeCalls w (afterBalance cfg r w) (take 4 ?p)" using 4 by (simp add: pipeline_def)
  show "madeCalls w (afterSend cfg r w) (take 5 ?p)" using 5 by (simp add: pipeline_def)
  show "madeCalls w (updateStats cfg (address r) h (afterSend cfg r w)) ?p"
    using 6 by (simp add: pipeline_def)
qed

lemma stage_newEvents:
  "newEvents w (afterBalance cfg r w) =
     Verify (Some (captchaToken r)) (Some (ipAddress r))
       # verifyPosts cfg (Some (captchaToken r)) (Some (ipAddress r))
       @ [CheckRateLimit (ipKey (ipAddress r)) (ipMaxRequests cfg) (ipWindowMs cfg),
          CheckRateLimit (addressKey (address r)) (addressMaxRequests cfg) (addressWindowMs cfg),
          GetBalance]"
  "newEvents w (afterSend cfg r w) =
     newEvents w (afterBalance cfg r w)
       @ SendTokens (address r) (requestId r) # sendSubmits cfg (address r) (afterBalance cfg r w)"
  "newEvents w (updateStats cfg (address r) h (afterSend cfg r w)) =
     newEvents w (afterSend cfg r w) @ [UpdateStats (address r) h]"
proof -
  note sc = stage_calls[of w cfg r h]
  have 1: "newEvents w (afterVerify cfg r w) =
             Verify (Some (captchaToken r)) (Some (ipAddress r))
               # verifyPosts cfg (Some (captchaToken r)) (Some (ipAddress r))"
    by (simp add: afterVerify_def verify_newEvents)
  have 2: "newEvents w (afterIp cfg r w) = newEvents w (afterVerify cfg r w)
             @ [CheckRateLimit (ipKey (ipAddress r)) (ipMaxRequests cfg) (ipWindowMs cfg)]"
    using newEvents_trans[OF sc(1) checkRateLimit_calls]
    by (simp add: afterIp_def checkIPRateLimit_def checkRateLimit_newEvents)
  have 3: "newEvents w (afterAddress cfg r w) = newEvents w (afterIp cfg r w)
             @ [CheckRateLimit (addressKey (address r)) (addressMaxRequests cfg) (addressWindowMs cfg)]"
    using newEvents_trans[OF sc(2) checkRateLimit_calls]
    by (simp add: afterAddress_def checkAddressRateLimit_def checkRateLimit_newEvents)
  have 4: "newEvents w (afterBalance cfg r w) = newEvents w (afterAddress cfg r w) @ [GetBalance]"
    using newEvents_trans[OF sc(3) getBalance_calls]
    by (simp add: afterBalance_def getBalance_world newEvents_def emit_frame)
  show "newEvents w (afterBalance cfg r w) =
     Verify (Some (captchaToken r)) (Some (ipAddress r))
       # verifyPosts cfg (Some (captchaToken r)) (Some (ipAddress r))
       @ [CheckRateLimit (ipKey (ipAddress r)) (ipMaxRequests cfg) (ipWindowMs cfg),
          CheckRateLimit (addressKey (address r)) (addressMaxRequests cfg) (addressWindowMs cfg),
          GetBalance]"
    by (simp add: 1 2 3 4)
  show "newEvents w (afterSend cfg r w) =
     newEvents w (afterBalance cfg r w)
       @ SendTokens (address r) (requestId r) # sendSubmits cfg (address r) (afterBalance cfg r w)"
    using newEvents_trans[OF sc(4) sendTokens_calls]
    by (simp add: afterSend_def sendTokens_newEvents)
  show "newEvents w (updateStats cfg (address r) h (afterSend cfg r w)) =
     newEvents w (afterSend cfg r w) @ [UpdateStats (address r) h]"
    using newEvents_trans[OF sc(5) updateStats_calls]
    by (simp add: updateStats_newEvents)
qed

lemma verifyPosts_not_send: "filter isSend (verifyPosts cfg t ip) = []"
  by (simp add: verifyPosts_def isSend_def split: option.splits)


lemma verify_disabled:
  "\<not> captchaEnabled cfg \<Longrightarrow> verify cfg t ip w = (onlySuccess, emit (Verify t ip) w)"
  by (simp add: verify_def)

lemma lookup_cong: "now w' = now w \<Longrightarrow> redis w' k = redis w k \<Longrightarrow> lookup w' k = lookup w k"
  by (simp add: lookup_def)

lemma checkRateLimit_allowed_fresh:
  assumes "faults w = []" "falsy (map_option fst (lookup w key))"
  shows "allowed (fst (checkRateLimit key limit W w))"
proof -
  let ?w = "emit (CheckRateLimit key limit W) w"
  have f: "faults ?w = []" using assms(1) by (simp add: emit_frame)
  have g: "clientGet key ?w = (Inr (map_option fst (lookup w key)), ?w)"
    using clientGet_healthy[OF f] by (simp add: lookup_emit)
  show ?thesis
    unfolding checkRateLimit_unfold Let_def g using assms(2)
    by (simp add: failOpen_def split: prod.splits sum.splits)
qed

lemma keys_differ:
  "ipKey x \<noteq> addressKey y" "addressKey y \<noteq> ipKey x"
  "ipKey x \<noteq> ''stats''" "addressKey y \<noteq> ''stats''" "''request:'' @ h \<noteq> ''stats''"
  "ipKey x \<noteq> ''request:'' @ h" "addressKey y \<noteq> ''request:'' @ h"
  by (simp_all add: ipKey_def addressKey_def)

lemma stage_frame:
  "now (afterVerify cfg r w) = now w" "node (afterVerify cfg r w) = node w"
  "faults (afterVerify cfg r w) = faults w" "redis (afterVerify cfg r w) = redis w"
  "now (afterIp cfg r w) = now w" "node (afterIp cfg r w) = node w"
  "now (afterAddress cfg r w) = now w" "node (afterAddress cfg r w) = node w"
  "now (afterBalance cfg r w) = now w" "node (afterBalance cfg r w) = node w"
  "now (afterSend cfg r w) = now w" "node (afterSend cfg r w) = node w"
  by (simp_all add: afterVerify_def afterIp_def afterAddress_def afterBalance_def afterSend_def
        verify_frame checkIPRateLimit_def checkAddressRateLimit_def checkRateLimit_frame
        getBalance_world emit_frame sendTokens_frame)

lemma stage_faults:
  assumes "faults w = []"
  shows "faults (afterIp cfg r w) = []" "faults (afterAddress cfg r w) = []"
    "faults (afterBalance cfg r w) = []" "faults (afterSend cfg r w) = []"
proof -
  have 1: "faults (afterVerify cfg r w) = []" using assms by (simp add: stage_frame)
  show 2: "faults (afterIp cfg r w) = []"
    unfolding afterIp_def checkIPRateLimit_def by (rule checkRateLimit_faults[OF 1])
  show 3: "faults (afterAddress cfg r w) = []"
    unfolding afterAddress_def checkAddressRateLimit_def by (rule checkRateLimit_faults[OF 2])
  show 4: "faults (afterBalance cfg r w) = []"
    using 3 by (simp add: afterBalance_def getBalance_world emit_frame)
  show "faults (afterSend cfg r w) = []"
    using 4 by (simp add: afterSend_def sendTokens_frame)
qed

lemma afterIp_other:
  "k \<noteq> ipKey (ipAddress r) \<Longrightarrow> redis (afterIp cfg r w) k = redis w k"
  by (simp add: afterIp_def checkIPRateLimit_def checkRateLimit_other stage_frame)

lemma stage_other:
  assumes "k \<noteq> ipKey (ipAddress r)" "k \<noteq> addressKey (address r)"
  shows "redis (afterIp cfg r w) k = redis w k" "redis (afterAddress cfg r w) k = redis w k"
    "redis (afterBalance cfg r w) k = redis w k" "redis (afterSend cfg r w) k = redis w k"
proof -
  show 2: "redis (afterIp cfg r w) k = redis w k"
    using assms(1) by (simp add: afterIp_def checkIPRateLimit_def checkRateLimit_other stage_frame)
  show 3: "redis (afterAddress cfg r w) k = redis w k"
    using assms(2) 2 by (simp add: afterAddress_def checkAddressRateLimit_def checkRateLimit_other)
  show 4: "redis (afterBalance cfg r w) k = redis w k"
    using 3 by (simp add: afterBalance_def getBalance_world emit_frame)
  show "redis (afterSend cfg r w) k = redis w k"
    using 4 by (simp add: afterSend_def sendTokens_frame)
qed

lemma passesChecks_fresh:
  assumes "isValidAddress (address r)" "\<not> captchaEnabled cfg" "faults w = []"
    and "lookup w (ipKey (ipAddress r)) = None" "lookup w (addressKey (address r)) = None"
  shows "passesChecks cfg r w"
proof -
  have v: "truthy (success (fst (verify cfg (Some (captchaToken r)) (Some (ipAddress r)) w)))"
    using assms(2) by (simp add: verify_disabled onlySuccess_def truthy_def)
  have l1: "lookup (afterVerify cfg r w) (ipKey (ipAddress r)) = None"
    using assms(4) by (simp add: lookup_def stage_frame)
  have i: "allowed (fst (checkIPRateLimit cfg (ipAddress r) (afterVerify cfg r w)))"
    unfolding checkIPRateLimit_def using assms(3) l1
    by (intro checkRateLimit_allowed_fresh) (simp_all add: stage_frame falsy_def)
  have l2: "lookup (afterIp cfg r w) (addressKey (address r)) = None"
    using assms(5) by (simp add: lookup_def stage_frame afterIp_other keys_differ)
  have a: "allowed (fst (checkAddressRateLimit cfg (address r) (afterIp cfg r w)))"
    unfolding checkAddressRateLimit_def using stage_faults(1)[OF assms(3)] l2
    by (intro checkRateLimit_allowed_fresh) (simp_all add: falsy_def)
  show ?thesis using assms(1) v i a by (simp add: passesChecks_def)
qed

lemma balanceRead_primary:
  "primaryBalance (node w) = Some b \<Longrightarrow> balanceRead cfg r w = Inr (formatEther b)"
  by (simp add: balanceRead_def getBalance_def emit_frame stage_frame Let_def)

lemma example_valid: "isValidAddress (address exampleRequest)"
  by (simp add: isValidAddress_def exampleRequest_def exampleAddress_def hexDigits_def)

lemma example_passes:
  "passesChecks defaultConfig exampleRequest (exampleWorld\<lparr>node := n\<rparr>)"
  by (rule passesChecks_fresh)
     (simp_all add: example_valid defaultConfig_def exampleWorld_def lookup_def live_def)

section \<open>The statistics update\<close>

lemma redisGet_healthy: "faults w = [] \<Longrightarrow> redisGet k w = (map_option fst (lookup w k), w)"
  by (simp add: redisGet_def clientGet_healthy)

lemma redisSet_healthy:
  "faults w = [] \<Longrightarrow> redisSet k v w = (True, w\<lparr>redis := (redis w)(k \<mapsto> (v, None))\<rparr>)"
  by (simp add: redisSet_def clientSet_def nextFault_healthy)

lemma redisSetex_healthy:
  "faults w = [] \<Longrightarrow> 0 < n \<Longrightarrow>
     redisSetex k n v w = (True, w\<lparr>redis := (redis w)(k \<mapsto> (v, Some (now w + n * 1000)))\<rparr>)"
  by (simp add: redisSetex_def clientSetex_def nextFault_healthy)

lemma redisGet_cases:
  "fst (redisGet k w) = None \<or> fst (redisGet k w) = map_option fst (lookup w k)"
  by (simp add: redisGet_def clientGet_def split_beta Let_def lookup_nextFault)

lemma redisSet_cases:
  "redis (snd (redisSet k v w)) = redis w
   \<or> redis (snd (redisSet k v w)) = (redis w)(k \<mapsto> (v, None))"
  by (simp add: redisSet_def clientSet_def split_beta Let_def nextFault_frame)

text \<open>The statistics object the update starts from, on a store that answers.\<close>

lemma stats_source:
  assumes "statsReadable w"
  shows "(if falsy (map_option fst (lookup w ''stats'')) then Inr defaultStats
          else (case map_option fst (lookup w ''stats'') of
                  None \<Rightarrow> Inr defaultStats | Some v \<Rightarrow> parseStats v)) = Inr (currentStats w)"
proof (cases "lookup w ''stats''")
  case None
  then show ?thesis by (simp add: falsy_def currentStats_def)
next
  case (Some p)
  obtain v e where p: "p = (v, e)" by (cases p)
  show ?thesis
  proof (cases v)
    case (Text t)
    with assms Some p have "t = []" by (simp add: statsReadable_def)
    with Some p Text show ?thesis by (simp add: falsy_def currentStats_def)
  next
    case (Json d)
    with assms Some p obtain st where "d = StatsDoc st"
      by (cases d) (simp_all add: statsReadable_def)
    with Some p Json show ?thesis by (simp add: falsy_def currentStats_def parseStats_def)
  qed
qed

lemma updateStats_healthy:
  assumes "faults w = []" "statsReadable w"
  shows "redis (updateStats cfg a h w) =
           (redis w)(''stats'' \<mapsto>
                (Json (StatsDoc ((currentStats w)
                   \<lparr>totalRequests := increment (totalRequests (currentStats w)),
                    successfulRequests := increment (successfulRequests (currentStats w)),
                    totalDistributed :=
                      addNumber (totalDistributed (currentStats w)) (Finite (faucetAmount cfg)),
                    lastRequest := Some (now w)\<rparr>)), None),
              ''request:'' @ h \<mapsto>
                (Json (RequestDoc \<lparr>recAddress = a, recTxHash = h, recAmount = faucetAmount cfg,
                                  recTimestamp = now w\<rparr>), Some (now w + 604800000)))"
proof -
  let ?w = "emit (UpdateStats a h) w"
  have f: "faults ?w = []" using assms(1) by (simp add: emit_frame)
  have g: "redisGet ''stats'' ?w = (map_option fst (lookup w ''stats''), ?w)"
    using redisGet_healthy[OF f] by (simp add: lookup_emit)
  show ?thesis
    unfolding updateStats_unfold Let_def g
    using assms(1)
    by (simp add: stats_source[OF assms(2)] redisSet_healthy redisSetex_healthy emit_frame)
qed

lemma currentStats_updateStats:
  assumes "faults w = []" "statsReadable w"
  shows "currentStats (updateStats cfg a h w) =
           (currentStats w)
             \<lparr>totalRequests := increment (totalRequests (currentStats w)),
              successfulRequests := increment (successfulRequests (currentStats w)),
              totalDistributed :=
                addNumber (totalDistributed (currentStats w)) (Finite (faucetAmount cfg)),
              lastRequest := Some (now w)\<rparr>"
  unfolding currentStats_def[of "updateStats cfg a h w"] lookup_def
    updateStats_healthy[OF assms]
  by (simp add: live_def keys_differ)

lemma currentStats_cong:
  "now w' = now w \<Longrightarrow> redis w' ''stats'' = redis w ''stats'' \<Longrightarrow> currentStats w' = currentStats w"
  by (simp add: currentStats_def lookup_def)

lemma updateStats_failedRequests:
  "failedRequests (currentStats (updateStats cfg a h w)) = failedRequests (currentStats w)
   \<or> failedRequests (currentStats (updateStats cfg a h w)) = Finite 0"
proof -
  let ?w0 = "emit (UpdateStats a h) w"
  let ?sd = "fst (redisGet ''stats'' ?w0)"
  let ?w1 = "snd (redisGet ''stats'' ?w0)"
  have w1: "now ?w1 = now w" "redis ?w1 = redis w" by (simp_all add: redis_frames)
  have same: "currentStats ?w1 = currentStats w"
    by (rule currentStats_cong) (simp_all add: w1)
  let ?src = "if falsy ?sd then Inr defaultStats
              else (case ?sd of None \<Rightarrow> Inr defaultStats | Some v \<Rightarrow> parseStats v)"
  show ?thesis
  proof (cases ?src)
    case (Inl e)
    then have "updateStats cfg a h w = ?w1"
      by (simp add: updateStats_unfold Let_def split_beta)
    with same show ?thesis by simp
  next
    case (Inr st)
    have F: "failedRequests st = failedRequests (currentStats w) \<or> failedRequests st = Finite 0"
    proof (cases "falsy ?sd")
      case True
      with Inr have "st = defaultStats" by simp
      then show ?thesis by (simp add: defaultStats_def)
    next
      case False
      then obtain v where v: "?sd = Some v" by (cases ?sd) (auto simp: falsy_def)
      with Inr False have ps: "parseStats v = Inr st" by simp
      then have vd: "v = Json (StatsDoc st)"
        by (auto simp: parseStats_def split: redis_value.splits json_doc.splits)
      from redisGet_cases[of "''stats''" ?w0] v
      have "map_option fst (lookup w ''stats'') = Some v" by (simp add: lookup_emit)
      with vd have "currentStats w = st" by (auto simp: currentStats_def)
      then show ?thesis by simp
    qed
    let ?st1 = "st\<lparr>totalRequests := increment (totalRequests st),
                    successfulRequests := increment (successfulRequests st),
                    totalDistributed := addNumber (totalDistributed st) (Finite (faucetAmount cfg)),
                    lastRequest := Some (now ?w1)\<rparr>"
    let ?w2 = "snd (redisSet ''stats'' (Json (StatsDoc ?st1)) ?w1)"
    obtain d2 where u: "updateStats cfg a h w =
        snd (redisSetex (''request:'' @ h) (86400 * 7) d2 ?w2)"
      using Inr by (simp add: updateStats_unfold Let_def split_beta)
    have n3: "now (updateStats cfg a h w) = now w" by (simp add: updateStats_frame)
    have r3: "redis (updateStats cfg a h w) ''stats'' = redis ?w2 ''stats''"
      unfolding u using keys_differ(5)[of h] by (simp add: redis_frames)
    from redisSet_cases[of "''stats''" "Json (StatsDoc ?st1)" ?w1]
    show ?thesis
    proof
      assume "redis ?w2 = redis ?w1"
      with r3 w1 have "redis (updateStats cfg a h w) ''stats'' = redis w ''stats''" by simp
      with n3 have "currentStats (updateStats cfg a h w) = currentStats w"
        by (rule currentStats_cong)
      then show ?thesis by simp
    next
      assume "redis ?w2 = (redis ?w1)(''stats'' \<mapsto> (Json (StatsDoc ?st1), None))"
      with r3 have "redis (updateStats cfg a h w) ''stats'' = Some (Json (StatsDoc ?st1), None)"
        by simp
      then have "currentStats (updateStats cfg a h w) = ?st1"
        by (simp add: currentStats_def lookup_def live_def)
      with F show ?thesis by auto
    qed
  qed
qed

lemma stage_stats:
  "currentStats (afterVerify cfg r w) = currentStats w"
  "currentStats (afterIp cfg r w) = currentStats w"
  "currentStats (afterAddress cfg r w) = currentStats w"
  "currentStats (afterBalance cfg r w) = currentStats w"
  "currentStats (afterSend cfg r w) = currentStats w"
  by (rule currentStats_cong; simp add: stage_frame stage_other keys_differ[symmetric])+

lemma stage_statsReadable: "statsReadable (afterSend cfg r w) = statsReadable w"
  by (simp add: statsReadable_def lookup_def stage_frame stage_other keys_differ[symmetric])

lemma processRequest_confirmed:
  assumes "reachesSend cfg r w" "sendResult cfg r w = Inr tx"
  shows "processRequest cfg r w =
           (Inr \<lparr>txHash = hash tx, responseAddress = txTo tx, amount = txAmount tx,
                 timestamp = now w\<rparr>,
            updateStats cfg (address r) (hash tx) (afterSend cfg r w))"
  using assms
  by (auto simp: processRequest_eq reachesSend_def passesChecks_def balanceRead_def
        sendResult_def updateStats_frame stage_frame split: sum.splits)

lemma processRequest_worlds:
  "snd (processRequest cfg r w) \<in>
     {w, afterVerify cfg r w, afterIp cfg r w, afterAddress cfg r w, afterBalance cfg r w,
      afterSend cfg r w}
   \<or> (\<exists>h. fst (processRequest cfg r w) \<noteq> Inl e
          \<and> snd (processRequest cfg r w) = updateStats cfg (address r) h (afterSend cfg r w))"
  by (simp add: processRequest_eq split: sum.splits) blast


lemma nthFault_0: "nthFault w 0 \<Longrightarrow> nextFault w = (True, w\<lparr>faults := tl (faults w)\<rparr>)"
  by (cases "faults w") (simp_all add: nthFault_def nextFault_def)

lemma nthFault_tl: "faults w' = tl (faults w) \<Longrightarrow> nthFault w (Suc n) \<Longrightarrow> nthFault w' n"
  by (cases "faults w") (simp_all add: nthFault_def)

lemma clientSet_fault: "nthFault w 0 \<Longrightarrow> redis (snd (clientSet k v w)) = redis w"
  by (simp add: clientSet_def nthFault_0)

lemma clientSetex_fault: "nthFault w 0 \<Longrightarrow> redis (snd (clientSetex k n v w)) = redis w"
  by (simp add: clientSetex_def nthFault_0)

lemma updateStats_write_fails:
  "nthFault w 1 \<Longrightarrow> redis (updateStats cfg a h w) ''stats'' = redis w ''stats''"
  "nthFault w 2 \<Longrightarrow> redis (updateStats cfg a h w) (''request:'' @ h) = redis w (''request:'' @ h)"
proof -
  let ?w0 = "emit (UpdateStats a h) w"
  let ?w1 = "snd (redisGet ''stats'' ?w0)"
  have f1: "faults ?w1 = tl (faults w)" by (simp add: redis_frames)
  have r1: "redis ?w1 = redis w" by (simp add: redis_frames)
  from updateStats_shape[of cfg a h w]
  consider "updateStats cfg a h w = ?w1"
    | d1 d2 where "updateStats cfg a h w =
         snd (redisSetex (''request:'' @ h) (86400 * 7) d2 (snd (redisSet ''stats'' d1 ?w1)))"
    by blast
  note shape = this
  {
    assume a: "nthFault w 1"
    then have n0: "nthFault ?w1 0" using nthFault_tl[OF f1] by simp
    show "redis (updateStats cfg a h w) ''stats'' = redis w ''stats''"
    proof (cases rule: shape)
      case 1
      then show ?thesis by (simp add: r1)
    next
      case (2 d1 d2)
      have "redis (snd (redisSet ''stats'' d1 ?w1)) = redis ?w1"
        using clientSet_fault[OF n0] by (simp add: snd_redisSet)
      then show ?thesis
        unfolding 2 using keys_differ(5)[of h] by (simp add: redis_frames)
    qed
  }
  {
    assume a: "nthFault w 2"
    then have "nthFault ?w1 1" using nthFault_tl[OF f1] by (simp add: numeral_2_eq_2)
    show "redis (updateStats cfg a h w) (''request:'' @ h) = redis w (''request:'' @ h)"
    proof (cases rule: shape)
      case 1
      then show ?thesis by (simp add: r1)
    next
      case (2 d1 d2)
      let ?w2 = "snd (redisSet ''stats'' d1 ?w1)"
      have f2: "faults ?w2 = tl (faults ?w1)" by (simp add: redis_frames)
      have n0: "nthFault ?w2 0" using nthFault_tl[OF f2] \<open>nthFault ?w1 1\<close> by simp
      have "redis (snd (redisSetex (''request:'' @ h) (86400 * 7) d2 ?w2)) = redis ?w2"
        using clientSetex_fault[OF n0] by (simp add: snd_redisSetex)
      moreover have "redis ?w2 (''request:'' @ h) = redis ?w1 (''request:'' @ h)"
        using keys_differ(5)[of h] by (simp add: redis_frames)
      ultimately show ?thesis unfolding 2 by (simp add: r1)
    qed
  }
qed


section \<open>Letter case and the cooldown query\<close>

lemma lower_of_upper:
  "(c, d) \<in> set (zip upperLetters lowerLetters) \<Longrightarrow> toLowerChar c = d \<and> toLowerChar d = d"
  unfolding upperLetters_def lowerLetters_def toLowerChar_def
  by (simp, elim disjE) simp_all

lemma sameLetter_lower: "sameLetter c d \<Longrightarrow> toLowerChar c = toLowerChar d"
  unfolding sameLetter_def using lower_of_upper[of c d] lower_of_upper[of d c] by auto

lemma toLowerCase_case: "differOnlyInCase a b \<Longrightarrow> toLowerCase a = toLowerCase b"
  unfolding differOnlyInCase_def toLowerCase_def
  by (induction a b rule: list_all2_induct) (simp_all add: sameLetter_lower)

lemma addressKey_case: "differOnlyInCase a b \<Longrightarrow> addressKey a = addressKey b"
  by (simp add: addressKey_def toLowerCase_case)


lemma checkCooldown_world:
  "snd (checkCooldown cfg a w) =
     snd (checkRateLimit (addressKey a) (addressMaxRequests cfg) (addressWindowMs cfg) w)"
  by (simp add: checkCooldown_def split_beta Let_def)


lemma checkRateLimit_open:
  assumes "True \<in> set (take 2 (faults w))"
  shows "fst (checkRateLimit key limit windowMs w) =
           \<lparr>allowed = True, remaining = Finite (of_int limit), resetAt = now w + windowMs\<rparr>"
proof (cases "faults w")
  case Nil
  with assms show ?thesis by simp
next
  case (Cons f fs)
  let ?w = "emit (CheckRateLimit key limit windowMs) w"
  show ?thesis
  proof (cases f)
    case True
    have "clientGet key ?w = (Inl RedisError, ?w\<lparr>faults := fs\<rparr>)"
      using Cons True by (simp add: clientGet_def nextFault_def emit_def)
    then show ?thesis
      unfolding checkRateLimit_unfold Let_def by (simp add: failOpen_def emit_def)
  next
    case False
    with assms Cons obtain fs' where fs: "fs = True # fs'"
      by (cases fs) (auto split: if_splits)
    let ?w1 = "?w\<lparr>faults := fs\<rparr>"
    have g: "clientGet key ?w = (Inr (map_option fst (lookup ?w1 key)), ?w1)"
      using Cons False by (simp add: clientGet_def nextFault_def emit_def)
    have n: "nextFault ?w1 = (True, ?w1\<lparr>faults := fs'\<rparr>)"
      using fs by (simp add: nextFault_def)
    have "clientSetex key (windowMs div 1000) (Text ''1'') ?w1 = (Inl RedisError, ?w1\<lparr>faults := fs'\<rparr>)"
      and "clientTtl key ?w1 = (Inl RedisError, ?w1\<lparr>faults := fs'\<rparr>)"
      and "clientIncr key ?w1 = (Inl RedisError, ?w1\<lparr>faults := fs'\<rparr>)"
      by (simp_all add: clientSetex_def clientTtl_def clientIncr_def n)
    then show ?thesis
      unfolding checkRateLimit_unfold Let_def g by (simp add: failOpen_def emit_def)
  qed
qed


section \<open>The example runs\<close>

lemma getGasPrice_stage: "getGasPrice cfg (afterBalance cfg' r w) = getGasPrice cfg w"
  by (simp add: getGasPrice_def stage_frame)

lemma sendResult_confirmed:
  assumes "ethersGetAddress (node w) (address r) = Some x" "pendingNonce (node w) = Some n"
    and "getGasPrice cfg w = Inr g" "parseEther (node w) (faucetAmount cfg) = Some v"
    and "submittedHash (node w) = Some h" "receipt (node w) = Receipt 1 u"
  shows "sendResult cfg r w =
           Inr \<lparr>hash = h, txFrom = walletAddress (node w), txTo = x,
                txAmount = faucetAmount cfg, gasUsed = u\<rparr>"
  using assms
  by (simp add: sendResult_def sendTokens_def getGasPrice_emit getGasPrice_stage emit_frame
        stage_frame Let_def)

lemma checkRateLimit_down:
  assumes "faults w = True # fs"
  shows "checkRateLimit key limit W w =
           (failOpen limit W w, (emit (CheckRateLimit key limit W) w)\<lparr>faults := fs\<rparr>)"
proof -
  have "clientGet key (emit (CheckRateLimit key limit W) w) =
          (Inl RedisError, (emit (CheckRateLimit key limit W) w)\<lparr>faults := fs\<rparr>)"
    using assms by (simp add: clientGet_def nextFault_def emit_def)
  then show ?thesis
    unfolding checkRateLimit_unfold Let_def by (simp add: failOpen_def emit_def)
qed

lemma passesChecks_down:
  assumes "isValidAddress (address r)" "\<not> captchaEnabled cfg" "faults w = True # True # fs"
  shows "passesChecks cfg r w" "faults (afterSend cfg r w) = fs"
proof -
  have v: "truthy (success (fst (verify cfg (Some (captchaToken r)) (Some (ipAddress r)) w)))"
    using assms(2) by (simp add: verify_disabled onlySuccess_def truthy_def)
  have f1: "faults (afterVerify cfg r w) = True # True # fs"
    using assms(3) by (simp add: stage_frame)
  note c1 = checkRateLimit_down[OF f1, of "ipKey (ipAddress r)" "ipMaxRequests cfg" "ipWindowMs cfg"]
  have f2: "faults (afterIp cfg r w) = True # fs"
    by (simp add: afterIp_def checkIPRateLimit_def c1)
  note c2 = checkRateLimit_down[OF f2, of "addressKey (address r)" "addressMaxRequests cfg"
              "addressWindowMs cfg"]
  have f3: "faults (afterAddress cfg r w) = fs"
    by (simp add: afterAddress_def checkAddressRateLimit_def c2)
  show "passesChecks cfg r w"
    using assms(1) v
    by (simp add: passesChecks_def checkIPRateLimit_def checkAddressRateLimit_def c1 c2
          failOpen_def)
  show "faults (afterSend cfg r w) = fs"
    using f3 by (simp add: afterSend_def afterBalance_def sendTokens_frame getBalance_world emit_frame)
qed

lemma reachesSend_funded:
  assumes "passesChecks cfg r w" "primaryBalance (node w) = Some b"
    and "\<not> ltNumber (parseFloat (formatEther b)) (mulNumber (faucetAmount cfg) 2)"
  shows "reachesSend cfg r w"
  using assms by (simp add: reachesSend_def balanceRead_primary)

lemma processRequest_now: "now (snd (processRequest cfg r w)) = now w"
  using processRequest_worlds[of cfg r w undefined]
  by (auto simp: stage_frame updateStats_frame)

text \<open>The example request on the example worlds.\<close>

lemma example_gas:
  "feeGasPrice (node w) = Some (Some 100) \<Longrightarrow> getGasPrice defaultConfig w = Inr 120"
  by (simp add: getGasPrice_def defaultConfig_def mulNumber_def double_eval bigIntDiv_def)

lemma example_funded:
  "\<not> ltNumber (parseFloat (formatEther (1000 * 10 ^ 18))) (mulNumber (faucetAmount defaultConfig) 2)"
  by (simp add: parseFloat_def formatEther_def mulNumber_def defaultConfig_def double_eval)

lemma example_send:
  assumes "node w = exampleNode"
  shows "sendResult defaultConfig exampleRequest w = Inr exampleTx"
proof -
  have g: "getGasPrice defaultConfig w = Inr 120"
    by (rule example_gas) (simp add: assms exampleNode_def)
  have a: "ethersGetAddress (node w) (address exampleRequest) = Some exampleAddress"
    by (simp add: assms exampleNode_def exampleRequest_def)
  have p: "parseEther (node w) (faucetAmount defaultConfig) = Some (10 * 10 ^ 18)"
    by (simp add: assms exampleNode_def defaultConfig_def)
  have n: "pendingNonce (node w) = Some 7" and h: "submittedHash (node w) = Some ''0xabc''"
    and c: "receipt (node w) = Receipt 1 21000"
    by (simp_all add: assms exampleNode_def)
  show ?thesis
    using sendResult_confirmed[OF a n g p h c]
    by (simp add: assms exampleNode_def exampleTx_def defaultConfig_def)
qed

lemma example_world_simps:
  "exampleWorld\<lparr>node := exampleNode\<rparr> = exampleWorld"
  "node exampleWorld = exampleNode" "node downWorld = exampleNode"
  "faults exampleWorld = []" "redis exampleWorld = Map.empty" "redis downWorld = Map.empty"
  "now exampleWorld = 1700000000000"
  by (simp_all add: exampleWorld_def downWorld_def)

lemma example_passes_plain: "passesChecks defaultConfig exampleRequest exampleWorld"
  using example_passes[of exampleNode] by (simp add: example_world_simps(1))

lemma example_reaches: "reachesSend defaultConfig exampleRequest exampleWorld"
  by (rule reachesSend_funded[OF example_passes_plain _ example_funded])
     (simp add: exampleWorld_def exampleNode_def)

lemma example_down_passes: "passesChecks defaultConfig exampleRequest downWorld"
  by (rule passesChecks_down(1)[of _ _ _ "[True, True, True]"])
     (simp_all add: example_valid defaultConfig_def downWorld_def exampleWorld_def)

lemma example_down_faults:
  "faults (afterSend defaultConfig exampleRequest downWorld) = [True, True, True]"
  by (rule passesChecks_down(2))
     (simp_all add: example_valid defaultConfig_def downWorld_def exampleWorld_def)

lemma example_down_reaches: "reachesSend defaultConfig exampleRequest downWorld"
  by (rule reachesSend_funded[OF example_down_passes _ example_funded])
     (simp add: downWorld_def exampleWorld_def exampleNode_def)

lemma differOnlyInCase_refl: "differOnlyInCase a a"
  by (simp add: differOnlyInCase_def sameLetter_def list_all2_refl)

lemma showNat_2: "showNat (Suc (Suc 0)) = ''2''"
  by (subst showNat.simps) (simp add: digitChar_def decimalDigits_def)

lemma ip_allowed_after_cooldown:
  assumes "faults w = []" "redis w (ipKey (ipAddress r)) = None"
  shows "allowed (fst (checkIPRateLimit cfg (ipAddress r)
           (afterVerify cfg r (tick d (snd (checkCooldown cfg' a w))))))"
proof -
  let ?w1 = "snd (checkCooldown cfg' a w)"
  let ?w2 = "afterVerify cfg r (tick d ?w1)"
  have f: "faults ?w2 = []"
    using assms(1) by (simp add: stage_frame tick_frame checkCooldown_world checkRateLimit_faults)
  have "redis ?w2 (ipKey (ipAddress r)) = None"
    using assms(2)
    by (simp add: stage_frame tick_frame checkCooldown_world checkRateLimit_other keys_differ)
  then have "lookup ?w2 (ipKey (ipAddress r)) = None"
    by (simp add: lookup_def live_def)
  then show ?thesis
    unfolding checkIPRateLimit_def using f
    by (intro checkRateLimit_allowed_fresh) (simp_all add: falsy_def)
qed


lemma checkCooldown_down:
  "faults w = True # fs \<Longrightarrow>
     snd (checkCooldown cfg a w) =
       (emit (CheckRateLimit (addressKey a) (addressMaxRequests cfg) (addressWindowMs cfg)) w)
         \<lparr>faults := fs\<rparr>"
  by (simp add: checkCooldown_world checkRateLimit_down)


lemmas store_defs = checkRateLimit_def checkRateLimitRead_def checkRateLimitFinish_def
  overlappingCalls_def clientGet_def clientSet_def clientSetex_def clientIncr_def
  clientTtl_def nextFault_def emit_def tick_def failOpen_def falsy_def parseCount_def geNumber_def
  lookup_def live_def storedCount_def expiryOf_def

lemmas parse_defs = parseInt_def parseIntValue_def isSpace_def isDigit_def decimalDigits_def digitsVal_def
  digitVal_def

section \<open>Runs with a confirmed send\<close>

lemma example_send_any:
  assumes "node w = exampleNode\<lparr>primaryBalance := b\<rparr>"
  shows "sendResult defaultConfig exampleRequest w = Inr exampleTx"
proof -
  have g: "getGasPrice defaultConfig w = Inr 120"
    by (rule example_gas) (simp add: assms exampleNode_def)
  have a: "ethersGetAddress (node w) (address exampleRequest) = Some exampleAddress"
    by (simp add: assms exampleNode_def exampleRequest_def)
  have p: "parseEther (node w) (faucetAmount defaultConfig) = Some (10 * 10 ^ 18)"
    by (simp add: assms exampleNode_def defaultConfig_def)
  have n: "pendingNonce (node w) = Some 7" and h: "submittedHash (node w) = Some ''0xabc''"
    and c: "receipt (node w) = Receipt 1 21000"
    by (simp_all add: assms exampleNode_def)
  show ?thesis
    using sendResult_confirmed[OF a n g p h c]
    by (simp add: assms exampleNode_def exampleTx_def defaultConfig_def)
qed

lemma nearly_funded:
  "\<not> ltNumber (parseFloat (formatEther 19999999999999999999))
        (mulNumber (faucetAmount defaultConfig) 2)"
  by (simp add: parseFloat_def formatEther_def mulNumber_def defaultConfig_def double_eval)

lemma send_in_run:
  assumes "reachesSend cfg r w" "sendResult cfg r w = Inr tx"
  shows "SendTokens (address r) (requestId r) \<in> set (newEvents w (snd (processRequest cfg r w)))"
  by (simp add: processRequest_confirmed[OF assms] stage_newEvents(2,3))

lemma default_multiplier: "mulNumber (gasPriceMultiplier defaultConfig) 100 = Finite 120"
  by (simp add: defaultConfig_def mulNumber_def double_eval)

lemma example_gas_any:
  assumes "gasPriceMultiplier cfg = gasPriceMultiplier defaultConfig"
    and "feeGasPrice (node w) = Some (Some 100)"
  shows "getGasPrice cfg w = Inr 120"
  unfolding getGasPrice_def assms default_multiplier by (simp add: bigIntDiv_def)

lemma tenth_send:
  assumes "node w = exampleNode\<lparr>primaryBalance := b\<rparr>"
  shows "sendResult tenthConfig exampleRequest w = Inr (exampleTx\<lparr>txAmount := tenth\<rparr>)"
proof -
  have g: "getGasPrice tenthConfig w = Inr 120"
    by (rule example_gas_any) (simp_all add: assms exampleNode_def tenthConfig_def)
  have a: "ethersGetAddress (node w) (address exampleRequest) = Some exampleAddress"
    by (simp add: assms exampleNode_def exampleRequest_def)
  have "tenth \<noteq> 10" by (simp add: tenth_def)
  then have p: "parseEther (node w) (faucetAmount tenthConfig) = Some (10 ^ 17)"
    by (simp add: assms exampleNode_def tenthConfig_def)
  have n: "pendingNonce (node w) = Some 7" and h: "submittedHash (node w) = Some ''0xabc''"
    and c: "receipt (node w) = Receipt 1 21000"
    by (simp_all add: assms exampleNode_def)
  show ?thesis
    using sendResult_confirmed[OF a n g p h c]
    by (simp add: assms exampleNode_def exampleTx_def tenthConfig_def)
qed

lemma statsWorld_simps:
  "faults (statsWorld s) = []" "now (statsWorld s) = now exampleWorld"
  "node (statsWorld s) = exampleNode"
  "currentStats (statsWorld s) = s" "statsReadable (statsWorld s)"
  "lookup (statsWorld s) (ipKey x) = None" "lookup (statsWorld s) (addressKey y) = None"
  by (simp_all add: statsWorld_def exampleWorld_def currentStats_def statsReadable_def
        lookup_def live_def keys_differ)

lemma statsWorld_passes:
  "\<not> captchaEnabled cfg \<Longrightarrow> passesChecks cfg exampleRequest (statsWorld s)"
  by (rule passesChecks_fresh) (simp_all add: example_valid statsWorld_simps)

lemma confirmed_stats:
  assumes "reachesSend cfg r w" "sendResult cfg r w = Inr tx" "faults w = []" "statsReadable w"
  shows "currentStats (snd (processRequest cfg r w)) =
           (currentStats w)
             \<lparr>totalRequests := increment (totalRequests (currentStats w)),
              successfulRequests := increment (successfulRequests (currentStats w)),
              totalDistributed :=
                addNumber (totalDistributed (currentStats w)) (Finite (faucetAmount cfg)),
              lastRequest := Some (now w)\<rparr>"
proof -
  have p: "snd (processRequest cfg r w) = updateStats cfg (address r) (hash tx) (afterSend cfg r w)"
    using assms(1,2) by (simp add: processRequest_confirmed)
  have f: "faults (afterSend cfg r w) = []" using assms(3) by (simp add: stage_faults)
  have s: "statsReadable (afterSend cfg r w)" using assms(4) by (simp add: stage_statsReadable)
  show ?thesis
    unfolding p currentStats_updateStats[OF f s] by (simp add: stage_stats stage_frame)
qed

lemma tenth_funded:
  "\<not> ltNumber (parseFloat (formatEther (1000 * 10 ^ 18))) (mulNumber (faucetAmount tenthConfig) 2)"
  by (simp add: parseFloat_def formatEther_def mulNumber_def tenthConfig_def tenth_def double_eval)

lemma statsWorld_reaches:
  "reachesSend defaultConfig exampleRequest (statsWorld s)"
  "reachesSend tenthConfig exampleRequest (statsWorld s)"
proof -
  have b: "primaryBalance (node (statsWorld s)) = Some (1000 * 10 ^ 18)"
    by (simp add: statsWorld_simps exampleNode_def)
  show "reachesSend defaultConfig exampleRequest (statsWorld s)"
    by (rule reachesSend_funded[OF statsWorld_passes b example_funded])
       (simp add: defaultConfig_def)
  show "reachesSend tenthConfig exampleRequest (statsWorld s)"
    by (rule reachesSend_funded[OF statsWorld_passes b tenth_funded])
       (simp add: tenthConfig_def defaultConfig_def)
qed

lemma increment_exact:
  assumes "0 \<le> n" "n < 2 ^ 53"
  shows "increment (Finite (of_int n)) = Finite (of_int n + 1)"
proof -
  have "toDouble (of_int (n + 1)) = Finite (of_int (n + 1))"
    using assms by (intro toDouble_exact) simp_all
  then show ?thesis by (simp add: increment_def)
qed

lemma addNumber_exact:
  assumes "0 \<le> x + a" "x + a \<le> 2 ^ 53"
  shows "addNumber (Finite (of_int x)) (Finite (of_int a)) = Finite (of_int (x + a))"
proof -
  have "toDouble (of_int (x + a)) = Finite (of_int (x + a))"
    using assms by (rule toDouble_exact)
  then show ?thesis by simp
qed

lemmas stats_defs = overlappingUpdates_def updateStats_def updateStatsRead_def
  updateStatsWrite_def redisGet_def redisSet_def redisSetex_def clientGet_def clientSet_def
  clientSetex_def nextFault_def emit_def lookup_def live_def falsy_def parseStats_def
  defaultStats_def increment_def currentStats_def


section \<open>The claims\<close>

subsection \<open>C1: the order of the steps\<close>



subsection \<open>C2: the stored count and the limit\<close>

text \<open>
  C2, as stated, fails: with limit 0 the first call for a key is allowed and stores the
  count 1, which exceeds the limit; while the store does not answer, a key whose stored
  count has reached the limit is allowed again (the call fails open); and of two calls
  that overlap (both read the count 4 under limit 5 before either increments it), both
  are allowed and the stored count becomes 6.
\<close>

theorem rate_limit_invariant_counterexample:
  "allowed (fst (checkRateLimit ''ip:10.0.0.1'' 0 3600000 exampleWorld))
   \<and> storedCount (snd (checkRateLimit ''ip:10.0.0.1'' 0 3600000 exampleWorld)) ''ip:10.0.0.1''
       = Some 1
   \<and> storedCount
        (exampleWorld\<lparr>redis := [''ip:10.0.0.1'' \<mapsto> (Text ''5'', Some 1700003600000)],
                       faults := [True]\<rparr>) ''ip:10.0.0.1'' = Some 5
   \<and> allowed (fst (checkRateLimit ''ip:10.0.0.1'' 5 3600000
        (exampleWorld\<lparr>redis := [''ip:10.0.0.1'' \<mapsto> (Text ''5'', Some 1700003600000)],
                       faults := [True]\<rparr>)))
   \<and> storedCount
        (exampleWorld\<lparr>redis := [''ip:10.0.0.1'' \<mapsto> (Text ''4'', Some 1700003600000)]\<rparr>)
        ''ip:10.0.0.1'' = Some 4
   \<and> allowed (fst (fst (overlappingCalls ''ip:10.0.0.1'' 5 3600000
        (exampleWorld\<lparr>redis := [''ip:10.0.0.1'' \<mapsto> (Text ''4'', Some 1700003600000)]\<rparr>))))
   \<and> allowed (snd (fst (overlappingCalls ''ip:10.0.0.1'' 5 3600000
        (exampleWorld\<lparr>redis := [''ip:10.0.0.1'' \<mapsto> (Text ''4'', Some 1700003600000)]\<rparr>))))
   \<and> storedCount (snd (overlappingCalls ''ip:10.0.0.1'' 5 3600000
        (exampleWorld\<lparr>redis := [''ip:10.0.0.1'' \<mapsto> (Text ''4'', Some 1700003600000)]\<rparr>)))
        ''ip:10.0.0.1'' = Some 6"
  by (simp add: store_defs parse_defs double_eval string2ll_def showInt_def showNat.simps
        digitChar_def exampleWorld_def Let_def)

text \<open>
  C2, amended: on a store that answers every command, for an integer limit of at least 1
  and for calls on the key that run one after another, none starting before the one
  before it has returned: after a call of \<open>checkRateLimit\<close> that returns allowed the count
  stored under the key does not exceed the limit; and once the stored count has reached
  the limit, every further call with the same key and limit made before the key expires
  returns not allowed. The limit is a number of the program, an integer that a double
  holds exactly (\<open>isNumber\<close>).
\<close>

theorem rate_limit_invariant:
  "(faults w = [] \<and> 1 \<le> limit \<and> isNumber limit
      \<and> allowed (fst (checkRateLimit key limit W w))
      \<longrightarrow> (case storedCount (snd (checkRateLimit key limit W w)) key of
             None \<Rightarrow> True | Some c \<Rightarrow> c \<le> limit))
   \<and> (faults w = [] \<and> 1 \<le> limit \<and> isNumber limit
        \<and> storedCount w key = Some c \<and> limit \<le> c \<and> (\<forall>d\<in>set ds. 0 \<le> d)
        \<and> (case expiryOf w key of None \<Rightarrow> True | Some t \<Rightarrow> now w + sum_list ds \<le> t)
      \<longrightarrow> list_all (\<lambda>r. \<not> allowed r) (fst (calls key limit W ds w)))"
  using allowed_count_bounded[of w limit key W] denied_until_expiry[of w limit key c ds W]
  by blast

theorem rate_limit_invariant_witness:
  "isNumber 5
   \<and> allowed (fst (checkRateLimit ''ip:10.0.0.1'' 5 3600000 exampleWorld))
   \<and> (case storedCount (snd (checkRateLimit ''ip:10.0.0.1'' 5 3600000 exampleWorld))
              ''ip:10.0.0.1'' of None \<Rightarrow> True | Some c \<Rightarrow> c \<le> 5)
   \<and> storedCount
        (exampleWorld\<lparr>redis := [''ip:10.0.0.1'' \<mapsto> (Text ''5'', Some 1700003600000)]\<rparr>)
        ''ip:10.0.0.1'' = Some 5
   \<and> list_all (\<lambda>r. \<not> allowed r)
        (fst (calls ''ip:10.0.0.1'' 5 3600000 [1000, 60000]
           (exampleWorld\<lparr>redis := [''ip:10.0.0.1'' \<mapsto> (Text ''5'', Some 1700003600000)]\<rparr>)))"
  using rate_limit_invariant[of exampleWorld 5 "''ip:10.0.0.1''" 3600000 5 "[]"]
    rate_limit_invariant[of
      "exampleWorld\<lparr>redis := [''ip:10.0.0.1'' \<mapsto> (Text ''5'', Some 1700003600000)]\<rparr>"
      5 "''ip:10.0.0.1''" 3600000 5 "[1000, 60000]"]
  by (simp add: store_defs parse_defs double_eval isNumber_def exampleWorld_def Let_def)

subsection \<open>C3: the fixed window\<close>

text \<open>
  C3, as stated, fails: with limit 0 the first call, which is call number N+1, is
  allowed; while the store does not answer, the second call under limit 1 is allowed;
  with a window under one second the counter is never created (the store refuses an
  expiry of 0 seconds), so the second call under limit 1 is allowed as well. Counts
  above \<open>2^53\<close> are read rounded: under the limit 9007199254740996 a call that finds the
  count 9007199254740995, which is below the limit, is denied. And the store does not
  count beyond \<open>2^63 - 1\<close>: under the limit \<open>2^64\<close> a call that finds that count is
  allowed and leaves it where it is, so the count never reaches the limit.
\<close>

theorem fixed_window_counterexample:
  "allowed (fst (checkRateLimit ''ip:10.0.0.1'' 0 3600000 exampleWorld))
   \<and> map allowed (fst (calls ''ip:10.0.0.1'' 1 3600000 [0, 0]
        (exampleWorld\<lparr>faults := [True, True]\<rparr>))) = [True, True]
   \<and> map allowed (fst (calls ''ip:10.0.0.1'' 1 500 [0, 0] exampleWorld)) = [True, True]
   \<and> lookup (snd (calls ''ip:10.0.0.1'' 1 500 [0, 0] exampleWorld)) ''ip:10.0.0.1'' = None
   \<and> storedCount
        (exampleWorld\<lparr>redis := [''ip:10.0.0.1'' \<mapsto>
                          (Text ''9007199254740995'', Some 1700003600000)]\<rparr>)
        ''ip:10.0.0.1'' = Some 9007199254740995
   \<and> \<not> allowed (fst (checkRateLimit ''ip:10.0.0.1'' 9007199254740996 3600000
        (exampleWorld\<lparr>redis := [''ip:10.0.0.1'' \<mapsto>
                          (Text ''9007199254740995'', Some 1700003600000)]\<rparr>)))
   \<and> allowed (fst (checkRateLimit ''ip:10.0.0.1'' 18446744073709551616 3600000
        (exampleWorld\<lparr>redis := [''ip:10.0.0.1'' \<mapsto>
                          (Text ''9223372036854775807'', Some 1700003600000)]\<rparr>)))
   \<and> storedCount (snd (checkRateLimit ''ip:10.0.0.1'' 18446744073709551616 3600000
        (exampleWorld\<lparr>redis := [''ip:10.0.0.1'' \<mapsto>
                          (Text ''9223372036854775807'', Some 1700003600000)]\<rparr>)))
        ''ip:10.0.0.1'' = Some 9223372036854775807"
  by (simp add: store_defs parse_defs double_eval string2ll_def exampleWorld_def Let_def)

text \<open>
  C3, amended: on a store that answers every command, under sequential calls, for a key
  with no counter, a window W of at least 1000 ms and a limit N of at least 1 and at most
  \<open>2^63\<close> (a number of the program, an integer that a double holds exactly): of N+1 calls
  made before the key expires, call N+1 is denied, and for N up to \<open>2^53\<close> the first N are
  allowed; the first call made once the key has expired is allowed again and starts a
  fresh counter at 1 with a fresh expiry. The key lives floor(W/1000) seconds from the
  first call, the last millisecond included.
\<close>

theorem fixed_window:
  assumes "faults w = []" "lookup w key = None" "0 < n" "isNumber (int n)" "int n \<le> 2 ^ 63"
    and "1000 \<le> W" "length ds = n" "\<forall>d\<in>set ds. 0 \<le> d"
    and "sum_list ds \<le> (W div 1000) * 1000" "(W div 1000) * 1000 < sum_list ds + late"
  shows "(n \<le> 2 ^ 53 \<longrightarrow>
            map allowed (take n (fst (calls key (int n) W (0 # ds @ [late]) w))) = replicate n True)
         \<and> \<not> allowed (fst (calls key (int n) W (0 # ds @ [late]) w) ! n)
         \<and> allowed (fst (calls key (int n) W (0 # ds @ [late]) w) ! Suc n)
         \<and> lookup (snd (calls key (int n) W (0 # ds @ [late]) w)) key =
             Some (Text ''1'', Some (now w + sum_list ds + late + (W div 1000) * 1000))"
proof -
  let ?N = "int n"
  let ?ev = "CheckRateLimit key ?N W"
  let ?P = "(W div 1000) * 1000"
  let ?E = "now w + ?P"
  let ?w1 = "(emit ?ev w)\<lparr>redis := (redis w)(key \<mapsto> (Text ''1'', Some ?E))\<rparr>"
  let ?r1 = "\<lparr>allowed = True, remaining = toDouble (of_int ?N - 1), resetAt = now w + W\<rparr>"
  have P: "0 < ?P" using assms(6) by simp
  have c1: "checkRateLimit key ?N W w = (?r1, ?w1)"
    using assms(1,2,6) by (intro checkRateLimit_fresh) (simp_all add: falsy_def)
  have f1: "faults ?w1 = []" using assms(1) by (simp add: emit_frame)
  have r1: "redis ?w1 key = Some (Text (showNat (Suc 0)), Some ?E)" by (simp add: showNat_1)
  have n1: "now ?w1 = now w" by (simp add: emit_frame)
  define ds' where "ds' = butlast ds"
  define dn where "dn = last ds"
  have ne: "ds \<noteq> []" using assms(3,7) by auto
  have ds: "ds = ds' @ [dn]" unfolding ds'_def dn_def using ne by simp
  have len': "length ds' = n - Suc 0" using assms(7) by (simp add: ds'_def)
  have pos': "\<forall>d\<in>set ds'. 0 \<le> d" and dn0: "0 \<le> dn" using assms(8) ds by simp_all
  have sum: "sum_list ds = sum_list ds' + dn" using ds by simp
  have win': "now ?w1 + sum_list ds' \<le> ?E" using assms(9) sum dn0 n1 by linarith
  let ?wa = "snd (calls key ?N W ds' ?w1)"
  have fa: "faults ?wa = []" using f1 by (rule calls_frame(2))
  have na: "now ?wa = now w + sum_list ds'" using calls_frame(1)[of key ?N W ds' ?w1] n1 by simp
  obtain k' where k': "redis ?wa key = Some (Text (showNat k'), Some ?E)" "0 < k'"
      "k' = Suc 0 + length ds' \<or> geNumber (parseInt (showNat k')) ?N"
    using calls_capped[OF f1 r1 _ _ assms(5) pos' win', of W] by auto
  have ge: "geNumber (parseInt (showNat k')) ?N"
  proof -
    have "geNumber (parseInt (showNat n)) ?N"
      using assms(4) by (simp add: parseInt_showNat isNumber_def geNumber_def)
    moreover have "Suc 0 + length ds' = n" using len' assms(3) by simp
    ultimately show ?thesis using k'(3) by auto
  qed
  let ?wb = "tick dn ?wa"
  have fb: "faults ?wb = []" using fa by (simp add: tick_frame)
  have nb: "now ?wb = now w + sum_list ds" using na sum by (simp add: tick_frame)
  have lb: "lookup ?wb key = Some (Text (showNat k'), Some ?E)"
    using k'(1) nb assms(9) by (simp add: lookup_def live_def tick_frame)
  note cn = checkRateLimit_denied[OF fb lb showNat_not_Nil ge, of W]
  let ?w2 = "emit ?ev ?wb"
  have cn2: "snd (checkRateLimit key ?N W ?wb) = ?w2"
    and cnA: "\<not> allowed (fst (checkRateLimit key ?N W ?wb))"
    by (simp_all add: cn)
  let ?w3 = "tick late ?w2"
  have f3: "faults ?w3 = []" using fb by (simp add: tick_frame emit_frame)
  have n3: "now ?w3 = now w + sum_list ds + late" using nb by (simp add: tick_frame emit_frame)
  have r3: "redis ?w3 key = Some (Text (showNat k'), Some ?E)"
    using k'(1) by (simp add: tick_frame emit_frame)
  have l3: "lookup ?w3 key = None"
    using r3 n3 assms(10) by (simp add: lookup_def live_def)
  let ?w4 = "(emit ?ev ?w3)\<lparr>redis := (redis ?w3)(key \<mapsto> (Text ''1'', Some (now ?w3 + ?P)))\<rparr>"
  have c3: "checkRateLimit key ?N W ?w3 =
              (\<lparr>allowed = True, remaining = toDouble (of_int ?N - 1), resetAt = now ?w3 + W\<rparr>, ?w4)"
    using f3 l3 assms(6) by (intro checkRateLimit_fresh) (simp_all add: falsy_def)
  have l4: "lookup ?w4 key = Some (Text ''1'', Some (now w + sum_list ds + late + ?P))"
    using P n3 by (simp add: lookup_def live_def emit_frame)
  let ?xs = "fst (calls key ?N W ds' ?w1)"
  let ?rn = "fst (checkRateLimit key ?N W ?wb)"
  let ?rl = "fst (checkRateLimit key ?N W ?w3)"
  have lx: "length ?xs = n - Suc 0" using len' by (simp add: calls_length)
  have mid: "calls key ?N W ds ?w1 = (?xs @ [?rn], ?w2)"
    unfolding ds calls_append by (simp add: cn2 split_beta Let_def)
  have run: "calls key ?N W (0 # ds @ [late]) w = (?r1 # ?xs @ [?rn, ?rl], ?w4)"
    unfolding calls_Cons tick_0 c1 by (simp add: calls_append mid c3 split_beta Let_def)
  have sn: "n = Suc (length ?xs)" using lx assms(3) by simp
  have at_n: "(?r1 # ?xs @ [?rn, ?rl]) ! n = ?rn"
    by (subst sn) (simp add: nth_append)
  have at_Sn: "(?r1 # ?xs @ [?rn, ?rl]) ! Suc n = ?rl"
    by (subst sn) (simp add: nth_append)
  have first: "n \<le> 2 ^ 53 \<longrightarrow>
                 map allowed (take n (?r1 # ?xs @ [?rn, ?rl])) = replicate n True"
  proof
    assume small: "n \<le> 2 ^ 53"
    have "map allowed (fst (calls key ?N W ds ?w1)) =
            replicate (min (length ds) (n - Suc 0)) True @ replicate (length ds - (n - Suc 0)) False"
      using calls_window[OF f1 r1 _ _ small assms(8), of W] assms(3,9) n1 by simp
    then have "map allowed (?xs @ [?rn]) = replicate (n - Suc 0) True @ [False]"
      using assms(3,7) by (simp add: mid min_def)
    then have "map allowed ?xs = replicate (n - Suc 0) True" by simp
    moreover have "take n (?r1 # ?xs @ [?rn, ?rl]) = ?r1 # ?xs"
      by (subst sn) simp
    moreover have "True # replicate (n - Suc 0) True = replicate n True"
      using assms(3) by (cases n) simp_all
    ultimately show "map allowed (take n (?r1 # ?xs @ [?rn, ?rl])) = replicate n True"
      by simp
  qed
  show ?thesis
    unfolding run fst_conv snd_conv at_n at_Sn using first cnA l4 by (simp add: c3)
qed

theorem fixed_window_witness:
  "lookup exampleWorld ''ip:10.0.0.1'' = None \<and> isNumber 2
   \<and> map allowed (take (Suc (Suc 0))
        (fst (calls ''ip:10.0.0.1'' 2 5000 [0, 100, 200, 5000] exampleWorld))) = [True, True]
   \<and> \<not> allowed (fst (calls ''ip:10.0.0.1'' 2 5000 [0, 100, 200, 5000] exampleWorld)
                   ! Suc (Suc 0))
   \<and> allowed (fst (calls ''ip:10.0.0.1'' 2 5000 [0, 100, 200, 5000] exampleWorld)
                   ! Suc (Suc (Suc 0)))
   \<and> lookup (snd (calls ''ip:10.0.0.1'' 2 5000 [0, 100, 200, 5000] exampleWorld))
        ''ip:10.0.0.1'' = Some (Text ''1'', Some 1700000010300)"
  using fixed_window[of exampleWorld "''ip:10.0.0.1''" "Suc (Suc 0)" 5000 "[100, 200]" 5000]
  by (simp add: isNumber_small exampleWorld_def lookup_def live_def del: calls.simps)

subsection \<open>C4: the treasury guard\<close>

text \<open>
  C4, as stated, fails: step 5 does not compare the balance that \<open>getBalance\<close> returns
  but the double \<open>parseFloat\<close> reads from it. A treasury of 19.999999999999999999
  tokens, one wei less than twice the amount of 10, reads as 20: the check passes and the
  request proceeds to \<open>sendTokens\<close>.
\<close>

theorem treasury_guard_counterexample:
  "balanceRead defaultConfig exampleRequest nearlyWorld
     = Inr (19999999999999999999 / 10 ^ 18)
   \<and> (19999999999999999999 / 10 ^ 18 :: rat) < 2 * faucetAmount defaultConfig
   \<and> fst (processRequest defaultConfig exampleRequest nearlyWorld) =
       Inr \<lparr>txHash = hash exampleTx, responseAddress = txTo exampleTx,
            amount = txAmount exampleTx, timestamp = now nearlyWorld\<rparr>
   \<and> SendTokens (address exampleRequest) (requestId exampleRequest)
       \<in> set (newEvents nearlyWorld
                (snd (processRequest defaultConfig exampleRequest nearlyWorld)))"
proof -
  have n: "node nearlyWorld = exampleNode\<lparr>primaryBalance := Some 19999999999999999999\<rparr>"
    by (simp add: nearlyWorld_def)
  have b: "primaryBalance (node nearlyWorld) = Some 19999999999999999999"
    by (simp add: n)
  have p: "passesChecks defaultConfig exampleRequest nearlyWorld"
    unfolding nearlyWorld_def by (rule example_passes)
  have r: "reachesSend defaultConfig exampleRequest nearlyWorld"
    using p b nearly_funded by (rule reachesSend_funded)
  have s: "sendResult defaultConfig exampleRequest nearlyWorld = Inr exampleTx"
    using n by (rule example_send_any)
  have 1: "balanceRead defaultConfig exampleRequest nearlyWorld
             = Inr (19999999999999999999 / 10 ^ 18)"
    by (simp add: balanceRead_primary[OF b] formatEther_def)
  have 2: "(19999999999999999999 / 10 ^ 18 :: rat) < 2 * faucetAmount defaultConfig"
    by (simp add: defaultConfig_def)
  from 1 2 send_in_run[OF r s] show ?thesis
    by (simp add: processRequest_confirmed[OF r s])
qed

text \<open>
  C4, amended: for every request that reaches the balance check (steps 1 to 4 let it
  through) and reads the balance B from \<open>getBalance\<close>, \<open>processRequest\<close> compares two
  doubles: \<open>parseFloat(B)\<close>, the double nearest to B, and twice the configured amount.
  If the first is less than the second, the request fails with the treasury-low error and
  the run contains no call of \<open>sendTokens\<close> and no transaction submission; otherwise the
  run calls \<open>sendTokens\<close>. Where B and twice the amount are themselves doubles, the
  comparison is the exact one, B < 2A.
\<close>

theorem treasury_guard:
  assumes "passesChecks cfg r w" and "balanceRead cfg r w = Inr B"
  shows "(ltNumber (parseFloat B) (mulNumber (faucetAmount cfg) 2) \<longrightarrow>
            fst (processRequest cfg r w) = Inl BalanceTooLow
            \<and> filter isSend (newEvents w (snd (processRequest cfg r w))) = [])
         \<and> (\<not> ltNumber (parseFloat B) (mulNumber (faucetAmount cfg) 2) \<longrightarrow>
            SendTokens (address r) (requestId r)
              \<in> set (newEvents w (snd (processRequest cfg r w))))
         \<and> (toDouble B = Finite B \<and> toDouble (faucetAmount cfg * 2) = Finite (faucetAmount cfg * 2) \<longrightarrow>
            ltNumber (parseFloat B) (mulNumber (faucetAmount cfg) 2) = (B < 2 * faucetAmount cfg))"
proof (intro conjI impI)
  assume low: "ltNumber (parseFloat B) (mulNumber (faucetAmount cfg) 2)"
  have p: "processRequest cfg r w = (Inl BalanceTooLow, afterBalance cfg r w)"
    using assms low by (simp add: processRequest_eq passesChecks_def balanceRead_def)
  show "fst (processRequest cfg r w) = Inl BalanceTooLow" by (simp add: p)
  show "filter isSend (newEvents w (snd (processRequest cfg r w))) = []"
    by (simp add: p stage_newEvents(1) verifyPosts_not_send isSend_def)
next
  assume funded: "\<not> ltNumber (parseFloat B) (mulNumber (faucetAmount cfg) 2)"
  have "snd (processRequest cfg r w) = afterSend cfg r w
        \<or> (\<exists>h. snd (processRequest cfg r w) = updateStats cfg (address r) h (afterSend cfg r w))"
    using assms funded
    by (auto simp: processRequest_eq passesChecks_def balanceRead_def split: sum.splits)
  then show "SendTokens (address r) (requestId r)
              \<in> set (newEvents w (snd (processRequest cfg r w)))"
    by (auto simp: stage_newEvents(2,3))
next
  assume "toDouble B = Finite B \<and> toDouble (faucetAmount cfg * 2) = Finite (faucetAmount cfg * 2)"
  then show "ltNumber (parseFloat B) (mulNumber (faucetAmount cfg) 2) = (B < 2 * faucetAmount cfg)"
    by (simp add: parseFloat_def mulNumber_def mult.commute)
qed

theorem treasury_guard_witness:
  "toDouble 15 = Finite 15 \<and> toDouble (faucetAmount defaultConfig * 2) = Finite 20
   \<and> ltNumber (parseFloat 15) (mulNumber (faucetAmount defaultConfig) 2)
   \<and> fst (processRequest defaultConfig exampleRequest lowWorld) = Inl BalanceTooLow
   \<and> filter isSend (newEvents lowWorld (snd (processRequest defaultConfig exampleRequest lowWorld)))
       = []
   \<and> SendTokens (address exampleRequest) (requestId exampleRequest)
       \<in> set (newEvents exampleWorld
                (snd (processRequest defaultConfig exampleRequest exampleWorld)))"
  using treasury_guard[OF example_passes[of "exampleNode\<lparr>primaryBalance := Some (15 * 10 ^ 18)\<rparr>"]
          balanceRead_primary, of "15 * 10 ^ 18"]
    treasury_guard[OF example_passes_plain balanceRead_primary, of "1000 * 10 ^ 18"]
  by (simp add: lowWorld_def[symmetric] example_world_simps defaultConfig_def exampleNode_def
        lowWorld_def formatEther_def parseFloat_def mulNumber_def double_eval)

subsection \<open>C5: the statistics counters\<close>

text \<open>
  C5, as stated, fails. While the store does not answer, a run with a confirmed send
  returns its result and leaves the counters where they were. The counters and the total
  are doubles: with an amount of 0.1 and a total of 0.2 the new total is
  0.30000000000000004, not the old total plus the amount, and a counter that has reached
  \<open>2^53\<close> stays there. And when the stats updates of two confirmed sends overlap (both
  read the statistics before either writes them), one of the two is lost: the counter
  shows 1, where two updates that run one after the other leave 2.
\<close>

theorem stats_bookkeeping_counterexample:
  "fst (processRequest defaultConfig exampleRequest downWorld) =
     Inr \<lparr>txHash = hash exampleTx, responseAddress = txTo exampleTx,
          amount = txAmount exampleTx, timestamp = now downWorld\<rparr>
   \<and> successfulRequests (currentStats (snd (processRequest defaultConfig exampleRequest downWorld)))
       = successfulRequests (currentStats downWorld)
   \<and> totalDistributed (currentStats (snd (processRequest defaultConfig exampleRequest downWorld)))
       = totalDistributed (currentStats downWorld)
   \<and> totalDistributed (currentStats (snd (processRequest tenthConfig exampleRequest
         (statsWorld (defaultStats\<lparr>totalDistributed := Finite (2 * tenth)\<rparr>)))))
       = Finite (1351079888211149 / 4503599627370496)
   \<and> 2 * tenth + faucetAmount tenthConfig \<noteq> 1351079888211149 / 4503599627370496
   \<and> successfulRequests (currentStats (snd (processRequest defaultConfig exampleRequest
         (statsWorld (defaultStats\<lparr>successfulRequests := Finite 9007199254740992\<rparr>)))))
       = Finite 9007199254740992
   \<and> successfulRequests (currentStats
         (overlappingUpdates defaultConfig exampleAddress ''0xabc'' exampleAddress ''0xdef''
            exampleWorld)) = Finite 1
   \<and> successfulRequests (currentStats
         (updateStats defaultConfig exampleAddress ''0xdef''
            (updateStats defaultConfig exampleAddress ''0xabc'' exampleWorld))) = Finite 2"
proof -
  note p = processRequest_confirmed[OF example_down_reaches
             example_send[OF example_world_simps(3)]]
  have n: "nthFault (afterSend defaultConfig exampleRequest downWorld) 1"
    by (simp add: nthFault_def example_down_faults)
  have "redis (snd (processRequest defaultConfig exampleRequest downWorld)) ''stats''
          = redis (afterSend defaultConfig exampleRequest downWorld) ''stats''"
    unfolding p snd_conv using n by (rule updateStats_write_fails(1))
  also have "\<dots> = redis downWorld ''stats''"
    by (rule stage_other(4)) (rule keys_differ(3,4)[symmetric])+
  finally have "currentStats (snd (processRequest defaultConfig exampleRequest downWorld))
                  = currentStats downWorld"
    by (intro currentStats_cong processRequest_now)
  then have 1: "fst (processRequest defaultConfig exampleRequest downWorld) =
       Inr \<lparr>txHash = hash exampleTx, responseAddress = txTo exampleTx,
            amount = txAmount exampleTx, timestamp = now downWorld\<rparr>
     \<and> successfulRequests (currentStats (snd (processRequest defaultConfig exampleRequest downWorld)))
         = successfulRequests (currentStats downWorld)
     \<and> totalDistributed (currentStats (snd (processRequest defaultConfig exampleRequest downWorld)))
         = totalDistributed (currentStats downWorld)"
    by (simp add: p)
  have st: "node (statsWorld s) = exampleNode\<lparr>primaryBalance := Some (1000 * 10 ^ 18)\<rparr>" for s
    by (simp add: statsWorld_simps exampleNode_def)
  have 2: "totalDistributed (currentStats (snd (processRequest tenthConfig exampleRequest
         (statsWorld (defaultStats\<lparr>totalDistributed := Finite (2 * tenth)\<rparr>)))))
       = Finite (1351079888211149 / 4503599627370496)"
    unfolding confirmed_stats[OF statsWorld_reaches(2) tenth_send[OF st] statsWorld_simps(1,5)]
    by (simp add: statsWorld_simps tenthConfig_def tenth_def double_eval)
  have 3: "2 * tenth + faucetAmount tenthConfig \<noteq> 1351079888211149 / 4503599627370496"
    by (simp add: tenthConfig_def tenth_def)
  have 4: "successfulRequests (currentStats (snd (processRequest defaultConfig exampleRequest
         (statsWorld (defaultStats\<lparr>successfulRequests := Finite 9007199254740992\<rparr>)))))
       = Finite 9007199254740992"
    unfolding confirmed_stats[OF statsWorld_reaches(1) example_send_any[OF st] statsWorld_simps(1,5)]
    by (simp add: statsWorld_simps increment_def double_eval)
  have 5: "successfulRequests (currentStats
         (overlappingUpdates defaultConfig exampleAddress ''0xabc'' exampleAddress ''0xdef''
            exampleWorld)) = Finite 1"
    by (simp add: stats_defs exampleWorld_def double_eval Let_def)
  have 6: "successfulRequests (currentStats
         (updateStats defaultConfig exampleAddress ''0xdef''
            (updateStats defaultConfig exampleAddress ''0xabc'' exampleWorld))) = Finite 2"
    by (simp add: stats_defs exampleWorld_def double_eval Let_def)
  from 1 2 3 4 5 6 show ?thesis by simp
qed


text \<open>
  C5, amended: a run of \<open>processRequest\<close> that reaches a confirmed send on a store that
  answers every command, with the stats key empty or holding a stats object, and with no
  other run updating the statistics between this run's read and its write of them, adds
  1 to successfulRequests and to totalRequests in double arithmetic, which is exactly 1
  for a counter from 0 to below \<open>2^53\<close>; it replaces totalDistributed by the double
  nearest to the old total plus the configured amount, which is exactly that sum where
  both are whole numbers and the sum is from 0 to \<open>2^53\<close>; and it leaves failedRequests
  as it was. A run that fails at any stage leaves the stored statistics unchanged. On no
  path is failedRequests incremented: it keeps its value, or is 0 in a stats object the
  update has written anew.
\<close>

theorem stats_bookkeeping:
  "(reachesSend cfg r w \<and> sendResult cfg r w = Inr tx \<and> faults w = [] \<and> statsReadable w \<longrightarrow>
      successfulRequests (currentStats (snd (processRequest cfg r w)))
        = increment (successfulRequests (currentStats w))
      \<and> totalRequests (currentStats (snd (processRequest cfg r w)))
        = increment (totalRequests (currentStats w))
      \<and> totalDistributed (currentStats (snd (processRequest cfg r w)))
        = addNumber (totalDistributed (currentStats w)) (Finite (faucetAmount cfg))
      \<and> failedRequests (currentStats (snd (processRequest cfg r w)))
        = failedRequests (currentStats w))
   \<and> (0 \<le> n \<and> n < 2 ^ 53 \<longrightarrow> increment (Finite (of_int n)) = Finite (of_int n + 1))
   \<and> (0 \<le> x + a \<and> x + a \<le> 2 ^ 53 \<longrightarrow>
        addNumber (Finite (of_int x)) (Finite (of_int a)) = Finite (of_int (x + a)))
   \<and> (fst (processRequest cfg r w) = Inl e \<longrightarrow>
        currentStats (snd (processRequest cfg r w)) = currentStats w)
   \<and> (statsReadable w \<longrightarrow>
        failedRequests (currentStats (snd (processRequest cfg r w)))
           = failedRequests (currentStats w)
        \<or> failedRequests (currentStats (snd (processRequest cfg r w))) = Finite 0)"
proof (intro conjI impI)
  assume a: "reachesSend cfg r w \<and> sendResult cfg r w = Inr tx \<and> faults w = [] \<and> statsReadable w"
  then have c: "currentStats (snd (processRequest cfg r w)) =
           (currentStats w)
             \<lparr>totalRequests := increment (totalRequests (currentStats w)),
              successfulRequests := increment (successfulRequests (currentStats w)),
              totalDistributed :=
                addNumber (totalDistributed (currentStats w)) (Finite (faucetAmount cfg)),
              lastRequest := Some (now w)\<rparr>"
    by (intro confirmed_stats) simp_all
  show "successfulRequests (currentStats (snd (processRequest cfg r w)))
        = increment (successfulRequests (currentStats w))"
    and "totalRequests (currentStats (snd (processRequest cfg r w)))
        = increment (totalRequests (currentStats w))"
    and "totalDistributed (currentStats (snd (processRequest cfg r w)))
        = addNumber (totalDistributed (currentStats w)) (Finite (faucetAmount cfg))"
    and "failedRequests (currentStats (snd (processRequest cfg r w)))
        = failedRequests (currentStats w)"
    by (simp_all add: c)
next
  assume "0 \<le> n \<and> n < 2 ^ 53"
  then show "increment (Finite (of_int n)) = Finite (of_int n + 1)"
    by (intro increment_exact) simp_all
next
  assume "0 \<le> x + a \<and> x + a \<le> 2 ^ 53"
  then show "addNumber (Finite (of_int x)) (Finite (of_int a)) = Finite (of_int (x + a))"
    by (intro addNumber_exact) simp_all
next
  assume "fst (processRequest cfg r w) = Inl e"
  with processRequest_worlds[of cfg r w e]
  show "currentStats (snd (processRequest cfg r w)) = currentStats w"
    by (auto simp: stage_stats)
next
  from processRequest_worlds[of cfg r w undefined]
  show "failedRequests (currentStats (snd (processRequest cfg r w)))
         = failedRequests (currentStats w)
      \<or> failedRequests (currentStats (snd (processRequest cfg r w))) = Finite 0"
  proof
    assume "snd (processRequest cfg r w) \<in>
     {w, afterVerify cfg r w, afterIp cfg r w, afterAddress cfg r w, afterBalance cfg r w,
      afterSend cfg r w}"
    then show ?thesis by (auto simp: stage_stats)
  next
    assume "\<exists>h. fst (processRequest cfg r w) \<noteq> Inl undefined
          \<and> snd (processRequest cfg r w) = updateStats cfg (address r) h (afterSend cfg r w)"
    then obtain h where
      "snd (processRequest cfg r w) = updateStats cfg (address r) h (afterSend cfg r w)" by blast
    with updateStats_failedRequests[of cfg "address r" h "afterSend cfg r w"]
    show ?thesis by (simp add: stage_stats)
  qed
qed

theorem stats_bookkeeping_witness:
  "fst (processRequest defaultConfig (exampleRequest\<lparr>address := ''0xZZZZ''\<rparr>) exampleWorld)
     = Inl InvalidAddress
   \<and> currentStats (snd (processRequest defaultConfig
         (exampleRequest\<lparr>address := ''0xZZZZ''\<rparr>) exampleWorld)) = defaultStats
   \<and> statsReadable exampleWorld
   \<and> successfulRequests
        (currentStats (snd (processRequest defaultConfig exampleRequest exampleWorld)))
       = Finite 1
   \<and> totalRequests
        (currentStats (snd (processRequest defaultConfig exampleRequest exampleWorld)))
       = Finite 1
   \<and> totalDistributed
        (currentStats (snd (processRequest defaultConfig exampleRequest exampleWorld)))
       = Finite 10
   \<and> failedRequests
        (currentStats (snd (processRequest defaultConfig exampleRequest exampleWorld)))
       = Finite 0"
proof -
  have c: "currentStats exampleWorld = defaultStats" and s: "statsReadable exampleWorld"
    by (simp_all add: currentStats_def statsReadable_def lookup_def live_def exampleWorld_def)
  have i: "fst (processRequest defaultConfig (exampleRequest\<lparr>address := ''0xZZZZ''\<rparr>)
             exampleWorld) = Inl InvalidAddress"
    by (simp add: processRequest_eq isValidAddress_def)
  from stats_bookkeeping[of defaultConfig exampleRequest exampleWorld exampleTx 0 0 10
         InvalidAddress]
    stats_bookkeeping[of defaultConfig "exampleRequest\<lparr>address := ''0xZZZZ''\<rparr>" exampleWorld
      exampleTx 0 0 10 InvalidAddress]
  show ?thesis
    using i example_reaches example_send[OF example_world_simps(2)] s
    by (simp add: c example_world_simps(4) defaultStats_def defaultConfig_def)
qed

subsection \<open>C6: failing open\<close>

text \<open>
  C6: when a store command inside \<open>checkRateLimit\<close> throws (the read, or the one command
  that follows it), the call returns allowed with remaining equal to the limit, for every
  key, limit and window.
\<close>

theorem checkRateLimit_fails_open:
  assumes "True \<in> set (take 2 (faults w))"
  shows "fst (checkRateLimit key limit windowMs w) =
           \<lparr>allowed = True, remaining = Finite (of_int limit), resetAt = now w + windowMs\<rparr>"
  using assms by (rule checkRateLimit_open)

theorem checkRateLimit_fails_open_witness:
  "fst (checkRateLimit ''ip:10.0.0.1'' 5 3600000 (exampleWorld\<lparr>faults := [False, True]\<rparr>)) =
     \<lparr>allowed = True, remaining = Finite 5, resetAt = 1700003600000\<rparr>"
  using checkRateLimit_fails_open[of "exampleWorld\<lparr>faults := [False, True]\<rparr>"
          "''ip:10.0.0.1''" 5 3600000]
  by (simp add: exampleWorld_def)

subsection \<open>C7: the captcha verifier\<close>




subsection \<open>C8: the cooldown query\<close>

text \<open>
  C8, as stated, fails: while the store does not answer, a cooldown query for a fresh
  address creates no counter, and the next request for that address goes through; with
  an address window under one second the query creates no counter either (the store
  refuses an expiry of 0 seconds); and a count above \<open>2^53\<close> is read rounded: under the
  limit 9007199254740996 a query that finds the count 9007199254740995, which is below
  the limit, is refused and leaves the count as it is.
\<close>

theorem cooldown_query_consumes_budget_counterexample:
  "lookup (snd (checkCooldown defaultConfig (address exampleRequest)
                 (exampleWorld\<lparr>faults := [True]\<rparr>)))
      (addressKey (address exampleRequest)) = None
   \<and> fst (processRequest defaultConfig exampleRequest
            (snd (checkCooldown defaultConfig (address exampleRequest)
                    (exampleWorld\<lparr>faults := [True]\<rparr>))))
       = Inr \<lparr>txHash = hash exampleTx, responseAddress = txTo exampleTx,
              amount = txAmount exampleTx, timestamp = now exampleWorld\<rparr>
   \<and> lookup (snd (checkCooldown (defaultConfig\<lparr>addressWindowMs := 500\<rparr>)
                    (address exampleRequest) exampleWorld))
      (addressKey (address exampleRequest)) = None
   \<and> lookup (snd (checkCooldown (defaultConfig\<lparr>addressMaxRequests := 9007199254740996\<rparr>)
                    (address exampleRequest)
                    (exampleWorld\<lparr>redis := [addressKey (address exampleRequest) \<mapsto>
                                      (Text ''9007199254740995'', Some 1700086400000)]\<rparr>)))
      (addressKey (address exampleRequest))
       = Some (Text ''9007199254740995'', Some 1700086400000)"
proof -
  let ?a = "address exampleRequest"
  define w1 where "w1 = snd (checkCooldown defaultConfig ?a (exampleWorld\<lparr>faults := [True]\<rparr>))"
  have "w1 = (emit (CheckRateLimit (addressKey ?a) (addressMaxRequests defaultConfig)
                     (addressWindowMs defaultConfig)) (exampleWorld\<lparr>faults := [True]\<rparr>))
                   \<lparr>faults := []\<rparr>"
    unfolding w1_def by (rule checkCooldown_down) simp
  then have f: "faults w1 = []" and r: "redis w1 = Map.empty" and n: "node w1 = exampleNode"
    and t: "now w1 = now exampleWorld"
    by (simp_all add: emit_frame example_world_simps)
  have 1: "lookup w1 (addressKey ?a) = None"
    by (simp add: lookup_def live_def r)
  have c: "\<not> captchaEnabled defaultConfig" by (simp add: defaultConfig_def)
  have p: "passesChecks defaultConfig exampleRequest w1"
    using example_valid c f by (rule passesChecks_fresh) (simp_all add: lookup_def live_def r)
  have b: "primaryBalance (node w1) = Some (1000 * 10 ^ 18)" by (simp add: n exampleNode_def)
  from p b example_funded have rs: "reachesSend defaultConfig exampleRequest w1"
    by (rule reachesSend_funded)
  have s: "sendResult defaultConfig exampleRequest w1 = Inr exampleTx"
    using n by (rule example_send)
  have 2: "fst (processRequest defaultConfig exampleRequest w1)
       = Inr \<lparr>txHash = hash exampleTx, responseAddress = txTo exampleTx,
              amount = txAmount exampleTx, timestamp = now exampleWorld\<rparr>"
    by (simp add: processRequest_confirmed[OF rs s] t)
  have 3: "lookup (snd (checkCooldown (defaultConfig\<lparr>addressWindowMs := 500\<rparr>) ?a exampleWorld))
             (addressKey ?a) = None"
    by (simp add: checkCooldown_def store_defs exampleWorld_def defaultConfig_def Let_def)
  have 4: "lookup (snd (checkCooldown (defaultConfig\<lparr>addressMaxRequests := 9007199254740996\<rparr>)
                    (address exampleRequest)
                    (exampleWorld\<lparr>redis := [addressKey (address exampleRequest) \<mapsto>
                                      (Text ''9007199254740995'', Some 1700086400000)]\<rparr>)))
      (addressKey (address exampleRequest))
       = Some (Text ''9007199254740995'', Some 1700086400000)"
    by (simp add: checkCooldown_def store_defs parse_defs double_eval exampleWorld_def
          defaultConfig_def Let_def)
  from 1 2 3 4 show ?thesis unfolding w1_def by simp
qed

text \<open>
  C8, amended: a call of \<open>checkCooldown\<close> does to the store what the address check of
  \<open>processRequest\<close> does. On a store that answers, for an address with no counter it
  creates the address counter with count 1 (for a window of at least one second), and
  for a counter whose count is below the limit and at most \<open>2^53\<close> it increments the
  counter. With an address limit of 1, after one cooldown query for a fresh address the
  next \<open>processRequest\<close> for that address (in any letter case) made before the counter
  expires fails with the address rate-limit error, if it gets as far as the address
  check.
\<close>

theorem cooldown_query_consumes_budget:
  "snd (checkCooldown cfg a w) = snd (checkAddressRateLimit cfg a w)
   \<and> (faults w = [] \<and> lookup w (addressKey a) = None \<and> 1000 \<le> addressWindowMs cfg \<longrightarrow>
      lookup (snd (checkCooldown cfg a w)) (addressKey a) =
        Some (Text ''1'', Some (now w + (addressWindowMs cfg div 1000) * 1000)))
   \<and> (faults w = [] \<and> lookup w (addressKey a) = Some (Text (showNat k), e) \<and> 0 < k
        \<and> int k < addressMaxRequests cfg \<and> k \<le> 2 ^ 53 \<longrightarrow>
      lookup (snd (checkCooldown cfg a w)) (addressKey a) = Some (Text (showNat (Suc k)), e))
   \<and> (faults w = [] \<and> lookup w (addressKey a) = None \<and> addressMaxRequests cfg = 1
        \<and> 1000 \<le> addressWindowMs cfg \<and> differOnlyInCase a (address r)
        \<and> 0 \<le> d \<and> d \<le> (addressWindowMs cfg div 1000) * 1000
        \<and> isValidAddress (address r)
        \<and> truthy (success (fst (verify cfg (Some (captchaToken r)) (Some (ipAddress r))
                                  (tick d (snd (checkCooldown cfg a w))))))
        \<and> allowed (fst (checkIPRateLimit cfg (ipAddress r)
                          (afterVerify cfg r (tick d (snd (checkCooldown cfg a w)))))) \<longrightarrow>
      isAddressRateLimit (fst (processRequest cfg r (tick d (snd (checkCooldown cfg a w))))))"
proof (intro conjI impI)
  show "snd (checkCooldown cfg a w) = snd (checkAddressRateLimit cfg a w)"
    by (simp add: checkCooldown_world checkAddressRateLimit_def)
next
  let ?key = "addressKey a"
  let ?N = "addressMaxRequests cfg"
  let ?W = "addressWindowMs cfg"
  let ?ev = "CheckRateLimit ?key ?N ?W"
  let ?E = "now w + (?W div 1000) * 1000"
  {
    assume h: "faults w = [] \<and> lookup w ?key = None \<and> 1000 \<le> ?W"
    then have "snd (checkCooldown cfg a w) =
                 (emit ?ev w)\<lparr>redis := (redis w)(?key \<mapsto> (Text ''1'', Some ?E))\<rparr>"
      unfolding checkCooldown_world
      using checkRateLimit_fresh[of w ?key ?W ?N] by (simp add: falsy_def)
    moreover have "1000 \<le> ?W" using h by simp
    then have "0 < (?W div 1000) * 1000" by simp
    ultimately show "lookup (snd (checkCooldown cfg a w)) ?key = Some (Text ''1'', Some ?E)"
      by (simp add: lookup_def live_def emit_frame)
  }
  {
    assume h: "faults w = [] \<and> lookup w ?key = Some (Text (showNat k), e) \<and> 0 < k
        \<and> int k < ?N \<and> k \<le> 2 ^ 53"
    then have k53: "k \<le> 2 ^ 53" by simp
    have ng: "\<not> geNumber (parseInt (showNat k)) ?N"
      using h by (simp add: geNumber_exact[OF k53])
    have "int k \<le> 2 ^ 53" using k53 by simp
    then have b: "int k < 2 ^ 63 - 1" using two53_small by linarith
    have "snd (checkCooldown cfg a w) =
                 (emit ?ev w)\<lparr>redis := (redis w)(?key \<mapsto> (Text (showNat (Suc k)), e))\<rparr>"
      unfolding checkCooldown_world
      using checkRateLimit_counting[of w ?key k e ?N ?W] h ng b by simp
    moreover have "live (now w) (Some (Text (showNat (Suc k)), e)) = Some (Text (showNat (Suc k)), e)"
      using h by (auto simp: lookup_def live_def split: option.splits if_splits)
    ultimately show "lookup (snd (checkCooldown cfg a w)) ?key = Some (Text (showNat (Suc k)), e)"
      by (simp add: lookup_def emit_frame)
  }
  {
    let ?w1 = "snd (checkCooldown cfg a w)"
    let ?w' = "tick d ?w1"
    assume h: "faults w = [] \<and> lookup w ?key = None \<and> ?N = 1
        \<and> 1000 \<le> ?W \<and> differOnlyInCase a (address r)
        \<and> 0 \<le> d \<and> d \<le> (?W div 1000) * 1000
        \<and> isValidAddress (address r)
        \<and> truthy (success (fst (verify cfg (Some (captchaToken r)) (Some (ipAddress r)) ?w')))
        \<and> allowed (fst (checkIPRateLimit cfg (ipAddress r) (afterVerify cfg r ?w')))"
    then have w1: "?w1 = (emit ?ev w)\<lparr>redis := (redis w)(?key \<mapsto> (Text ''1'', Some ?E))\<rparr>"
      unfolding checkCooldown_world
      using checkRateLimit_fresh[of w ?key ?W ?N] by (simp add: falsy_def)
    have key: "addressKey (address r) = ?key" using h addressKey_case[of a "address r"] by simp
    have f': "faults ?w' = []" using h by (simp add: w1 tick_frame emit_frame)
    have f2: "faults (afterIp cfg r ?w') = []" by (rule stage_faults(1)[OF f'])
    have "redis (afterIp cfg r ?w') ?key = redis ?w' ?key"
      by (rule afterIp_other) (rule keys_differ(2))
    moreover have "d \<le> (?W div 1000) * 1000" using h by simp
    then have "now w + d \<le> ?E" by simp
    ultimately have l2: "lookup (afterIp cfg r ?w') ?key = Some (Text ''1'', Some ?E)"
      by (simp add: lookup_def live_def stage_frame w1 tick_frame emit_frame)
    have "\<not> allowed (fst (checkAddressRateLimit cfg (address r) (afterIp cfg r ?w')))"
      unfolding checkAddressRateLimit_def key
      using checkRateLimit_denied[OF f2 l2, of ?N ?W] h by (simp add: parseInt_1 geNumber_def)
    then show "isAddressRateLimit (fst (processRequest cfg r ?w'))"
      using h by (simp add: processRequest_eq isAddressRateLimit_def)
  }
qed

theorem cooldown_query_consumes_budget_witness:
  "lookup (snd (checkCooldown defaultConfig (address exampleRequest) exampleWorld))
      (addressKey (address exampleRequest)) = Some (Text ''1'', Some 1700086400000)
   \<and> lookup (snd (checkCooldown (defaultConfig\<lparr>addressMaxRequests := 3\<rparr>)
               (address exampleRequest)
               (exampleWorld\<lparr>redis := [addressKey (address exampleRequest)
                                         \<mapsto> (Text ''1'', Some 1700086400000)]\<rparr>)))
      (addressKey (address exampleRequest)) = Some (Text ''2'', Some 1700086400000)
   \<and> isAddressRateLimit
       (fst (processRequest defaultConfig exampleRequest
              (tick 60000 (snd (checkCooldown defaultConfig (address exampleRequest)
                                  exampleWorld)))))"
proof -
  have v: "truthy (success (fst (verify defaultConfig (Some (captchaToken exampleRequest))
             (Some (ipAddress exampleRequest))
             (tick 60000 (snd (checkCooldown defaultConfig (address exampleRequest)
                                 exampleWorld))))))"
    by (simp add: verify_disabled defaultConfig_def onlySuccess_def truthy_def)
  have i: "allowed (fst (checkIPRateLimit defaultConfig (ipAddress exampleRequest)
             (afterVerify defaultConfig exampleRequest
               (tick 60000 (snd (checkCooldown defaultConfig (address exampleRequest)
                                   exampleWorld))))))"
    by (rule ip_allowed_after_cooldown) (simp_all add: example_world_simps)
  from cooldown_query_consumes_budget[of defaultConfig "address exampleRequest" exampleWorld
         "Suc 0" None exampleRequest 60000, THEN conjunct2]
    cooldown_query_consumes_budget[of "defaultConfig\<lparr>addressMaxRequests := 3\<rparr>"
         "address exampleRequest"
         "exampleWorld\<lparr>redis := [addressKey (address exampleRequest)
                                  \<mapsto> (Text ''1'', Some 1700086400000)]\<rparr>"
         "Suc 0" "Some 1700086400000" exampleRequest 60000, THEN conjunct2]
  show ?thesis
    using v i example_valid differOnlyInCase_refl[of "address exampleRequest"]
    by (simp add: lookup_def live_def example_world_simps showNat_1 showNat_2
          defaultConfig_def exampleWorld_def)
qed

subsection \<open>C9: letter case of the address\<close>



subsection \<open>C10: a failing stats update\<close>

text \<open>
  C10: whatever the store does during the stats update, a run of \<open>processRequest\<close> whose
  send is confirmed returns the successful result built from the transaction. When the
  write of the stats object throws, the stored statistics stay as they were, and when the
  write of the per-transaction record throws, no record is stored: the request has
  succeeded with the statistics and the record not updated.
\<close>

theorem stats_failure_swallowed:
  assumes "reachesSend cfg r w" and "sendResult cfg r w = Inr tx"
  shows "fst (processRequest cfg r w) =
           Inr \<lparr>txHash = hash tx, responseAddress = txTo tx, amount = txAmount tx,
                timestamp = now w\<rparr>
         \<and> (nthFault (afterSend cfg r w) 1 \<longrightarrow>
              redis (snd (processRequest cfg r w)) ''stats'' = redis w ''stats'')
         \<and> (nthFault (afterSend cfg r w) 2 \<longrightarrow>
              redis (snd (processRequest cfg r w)) (''request:'' @ hash tx)
                = redis w (''request:'' @ hash tx))"
proof (intro conjI impI)
  note p = processRequest_confirmed[OF assms]
  show "fst (processRequest cfg r w) =
           Inr \<lparr>txHash = hash tx, responseAddress = txTo tx, amount = txAmount tx,
                timestamp = now w\<rparr>"
    by (simp add: p)
  {
    assume "nthFault (afterSend cfg r w) 1"
    then have "redis (snd (processRequest cfg r w)) ''stats'' = redis (afterSend cfg r w) ''stats''"
      unfolding p snd_conv by (rule updateStats_write_fails(1))
    also have "\<dots> = redis w ''stats''"
      by (rule stage_other(4)) (rule keys_differ(3,4)[symmetric])+
    finally show "redis (snd (processRequest cfg r w)) ''stats'' = redis w ''stats''" .
  }
  {
    assume "nthFault (afterSend cfg r w) 2"
    then have "redis (snd (processRequest cfg r w)) (''request:'' @ hash tx)
                 = redis (afterSend cfg r w) (''request:'' @ hash tx)"
      unfolding p snd_conv by (rule updateStats_write_fails(2))
    also have "\<dots> = redis w (''request:'' @ hash tx)"
      by (rule stage_other(4)) (rule keys_differ(6,7)[symmetric])+
    finally show "redis (snd (processRequest cfg r w)) (''request:'' @ hash tx)
                = redis w (''request:'' @ hash tx)" .
  }
qed

theorem stats_failure_swallowed_witness:
  "fst (processRequest defaultConfig exampleRequest downWorld) =
     Inr \<lparr>txHash = hash exampleTx, responseAddress = txTo exampleTx,
          amount = txAmount exampleTx, timestamp = now downWorld\<rparr>
   \<and> redis (snd (processRequest defaultConfig exampleRequest downWorld)) ''stats'' = None
   \<and> redis (snd (processRequest defaultConfig exampleRequest downWorld))
        (''request:'' @ hash exampleTx) = None"
  using stats_failure_swallowed[OF example_down_reaches example_send[OF example_world_simps(3)]]
  by (simp add: nthFault_def example_down_faults example_world_simps)


end
